theory Spec2Isabelle
  imports Complex_Main "HOL-Library.AList" "HOL-Library.Sublist"
begin

section \<open>APICache: the in-memory response cache\<close>

text \<open>
  The class \<^verbatim>\<open>APICache\<close> keeps two JavaScript \<^verbatim>\<open>Map\<close>s from cache keys to entries
  \<^verbatim>\<open>{data, timestamp, expiresAt}\<close>. A \<^verbatim>\<open>Map\<close> is modelled as an association list in
  insertion order: \<^verbatim>\<open>Map.set\<close> is \<open>AList.update\<close> (an existing key keeps its place, a new
  key goes last), \<^verbatim>\<open>Map.delete\<close> is \<open>AList.delete\<close>, \<^verbatim>\<open>Map.get\<close> is \<open>map_of\<close> and
  \<^verbatim>\<open>Map.size\<close> is \<open>length\<close>. Time stamps are the milliseconds of \<^verbatim>\<open>Date.now()\<close>,
  natural numbers; the clock reading of each call is an explicit argument \<open>now\<close>.
  Every method returns the updated cache next to its result.
\<close>

record 'a CacheEntry =
  data :: 'a
  timestamp :: nat
  expiresAt :: nat

record ('c, 'v) APICache =
  channelCache :: "(string \<times> 'c CacheEntry) list"
  videoCache :: "(string \<times> 'v CacheEntry) list"
  defaultCacheDuration :: nat

definition APICache_new :: "nat option \<Rightarrow> ('c, 'v) APICache" where
  "APICache_new cacheDurationMs =
     \<lparr>channelCache = [], videoCache = [],
      defaultCacheDuration = (case cacheDurationMs of None \<Rightarrow> 4 * 60 * 60 * 1000 | Some d \<Rightarrow> d)\<rparr>"

definition setChannel ::
  "string \<Rightarrow> 'c \<Rightarrow> nat option \<Rightarrow> nat \<Rightarrow> ('c, 'v) APICache \<Rightarrow> ('c, 'v) APICache" where
  "setChannel k channel customDuration now c =
     (let duration = (case customDuration of None \<Rightarrow> defaultCacheDuration c | Some d \<Rightarrow> d)
      in c\<lparr>channelCache :=
             AList.update k \<lparr>data = channel, timestamp = now, expiresAt = now + duration\<rparr>
               (channelCache c)\<rparr>)"

definition getChannel ::
  "string \<Rightarrow> nat \<Rightarrow> ('c, 'v) APICache \<Rightarrow> 'c option \<times> ('c, 'v) APICache" where
  "getChannel k now c =
     (case map_of (channelCache c) k of
        None \<Rightarrow> (None, c)
      | Some entry \<Rightarrow>
          if now \<ge> expiresAt entry
          then (None, c\<lparr>channelCache := AList.delete k (channelCache c)\<rparr>)
          else (Some (data entry), c))"

definition setVideos ::
  "string \<Rightarrow> 'v \<Rightarrow> nat option \<Rightarrow> nat \<Rightarrow> ('c, 'v) APICache \<Rightarrow> ('c, 'v) APICache" where
  "setVideos k videos customDuration now c =
     (let duration = (case customDuration of None \<Rightarrow> defaultCacheDuration c | Some d \<Rightarrow> d)
      in c\<lparr>videoCache :=
             AList.update k \<lparr>data = videos, timestamp = now, expiresAt = now + duration\<rparr>
               (videoCache c)\<rparr>)"

definition getVideos ::
  "string \<Rightarrow> nat \<Rightarrow> ('c, 'v) APICache \<Rightarrow> 'v option \<times> ('c, 'v) APICache" where
  "getVideos k now c =
     (case map_of (videoCache c) k of
        None \<Rightarrow> (None, c)
      | Some entry \<Rightarrow>
          if now \<ge> expiresAt entry
          then (None, c\<lparr>videoCache := AList.delete k (videoCache c)\<rparr>)
          else (Some (data entry), c))"

definition invalidateChannel :: "string \<Rightarrow> ('c, 'v) APICache \<Rightarrow> ('c, 'v) APICache" where
  "invalidateChannel k c = c\<lparr>channelCache := AList.delete k (channelCache c)\<rparr>"

definition invalidateVideos :: "string \<Rightarrow> ('c, 'v) APICache \<Rightarrow> ('c, 'v) APICache" where
  "invalidateVideos k c = c\<lparr>videoCache := AList.delete k (videoCache c)\<rparr>"

definition clearChannels :: "('c, 'v) APICache \<Rightarrow> ('c, 'v) APICache" where
  "clearChannels c = c\<lparr>channelCache := []\<rparr>"

definition clearVideos :: "('c, 'v) APICache \<Rightarrow> ('c, 'v) APICache" where
  "clearVideos c = c\<lparr>videoCache := []\<rparr>"

definition clearAll :: "('c, 'v) APICache \<Rightarrow> ('c, 'v) APICache" where
  "clearAll c = c\<lparr>channelCache := [], videoCache := []\<rparr>"

definition getChannelCacheSize :: "('c, 'v) APICache \<Rightarrow> nat" where
  "getChannelCacheSize c = length (channelCache c)"

definition getVideoCacheSize :: "('c, 'v) APICache \<Rightarrow> nat" where
  "getVideoCacheSize c = length (videoCache c)"

text \<open>A JavaScript \<^verbatim>\<open>Map\<close> holds each key once; every method keeps it so.\<close>

definition cache_wf :: "('c, 'v) APICache \<Rightarrow> bool" where
  "cache_wf c = (distinct (map fst (channelCache c)) \<and> distinct (map fst (videoCache c)))"

section \<open>APIKeyManager: the pool of API keys\<close>

text \<open>
  The class keeps the keys in an array, one status object per key string in a
  \<^verbatim>\<open>Map\<close> (an association list again), and the index of the current key. Optional
  fields are options. The methods read the clock, so each takes the reading \<open>now\<close>;
  \<^verbatim>\<open>reportError\<close> also computes the next local midnight through the \<^verbatim>\<open>Date\<close> object, which
  is taken as the argument \<open>midnight\<close>.
\<close>

record APIKeyStatus =
  key :: string
  isActive :: bool
  quotaExhausted :: bool
  lastError :: "string option"
  lastErrorTime :: "nat option"
  consecutiveErrors :: nat
  nextRetryTime :: "nat option"

record APIKeyManager =
  apiKeys :: "string list"
  keyStatuses :: "(string \<times> APIKeyStatus) list"
  currentKeyIndex :: nat

definition maxRetryDelay :: nat where
  "maxRetryDelay = 60 * 60 * 1000"

definition baseRetryDelay :: nat where
  "baseRetryDelay = 5 * 60 * 1000"

text \<open>Reading an array out of range gives \<^verbatim>\<open>undefined\<close>: \<open>None\<close> here.\<close>

fun nth_opt :: "'a list \<Rightarrow> nat \<Rightarrow> 'a option" where
  "nth_opt [] i = None"
| "nth_opt (x # xs) 0 = Some x"
| "nth_opt (x # xs) (Suc i) = nth_opt xs i"

text \<open>\<^verbatim>\<open>Array.prototype.findIndex\<close>, with \<open>None\<close> for -1.\<close>

fun findIndex :: "('a \<Rightarrow> bool) \<Rightarrow> 'a list \<Rightarrow> nat option" where
  "findIndex P [] = None"
| "findIndex P (x # xs) =
     (if P x then Some 0 else (case findIndex P xs of None \<Rightarrow> None | Some i \<Rightarrow> Some (Suc i)))"

text \<open>
  The truth value JavaScript gives an optional number in \<^verbatim>\<open>status.nextRetryTime && ...\<close>:
  \<^verbatim>\<open>undefined\<close> and 0 are false.
\<close>

definition truthyTime :: "nat option \<Rightarrow> bool" where
  "truthyTime t = (case t of None \<Rightarrow> False | Some n \<Rightarrow> n \<noteq> 0)"

definition initialStatus :: "string \<Rightarrow> APIKeyStatus" where
  "initialStatus k =
     \<lparr>key = k, isActive = True, quotaExhausted = False, lastError = None,
      lastErrorTime = None, consecutiveErrors = 0, nextRetryTime = None\<rparr>"

text \<open>The state the constructor builds for a non-empty array of keys.\<close>

definition APIKeyManager_init :: "string list \<Rightarrow> APIKeyManager" where
  "APIKeyManager_init keys =
     \<lparr>apiKeys = keys,
      keyStatuses = fold (\<lambda>k sts. AList.update k (initialStatus k) sts) keys [],
      currentKeyIndex = 0\<rparr>"

definition APIKeyManager_new :: "string list \<Rightarrow> string + APIKeyManager" where
  "APIKeyManager_new keys =
     (if keys = [] then Inl ''At least one API key is required''
      else Inr (APIKeyManager_init keys))"

text \<open>
  The callback of the filter in \<^verbatim>\<open>getAvailableKeys\<close>, for one key: whether the key is
  kept, and the status map after the callback's writes.
\<close>

definition availableStep ::
  "nat \<Rightarrow> string \<Rightarrow> (string \<times> APIKeyStatus) list \<Rightarrow> bool \<times> (string \<times> APIKeyStatus) list" where
  "availableStep now k sts =
     (case map_of sts k of
        None \<Rightarrow> (False, sts)
      | Some status \<Rightarrow>
          if truthyTime (nextRetryTime status) \<and> now < the (nextRetryTime status)
          then (False, sts)
          else if truthyTime (nextRetryTime status) \<and> now \<ge> the (nextRetryTime status)
                  \<and> \<not> quotaExhausted status
          then (let status' = status\<lparr>isActive := True, nextRetryTime := None\<rparr>
                in (isActive status' \<and> \<not> quotaExhausted status', AList.update k status' sts))
          else (isActive status \<and> \<not> quotaExhausted status, sts))"

fun availableFilter ::
  "nat \<Rightarrow> string list \<Rightarrow> (string \<times> APIKeyStatus) list
     \<Rightarrow> string list \<times> (string \<times> APIKeyStatus) list" where
  "availableFilter now [] sts = ([], sts)"
| "availableFilter now (k # ks) sts =
     (case availableStep now k sts of
        (keep, sts') \<Rightarrow>
          (case availableFilter now ks sts' of
             (rest, sts'') \<Rightarrow> (if keep then k # rest else rest, sts'')))"

definition getAvailableKeys :: "nat \<Rightarrow> APIKeyManager \<Rightarrow> string list \<times> APIKeyManager" where
  "getAvailableKeys now m =
     (case availableFilter now (apiKeys m) (keyStatuses m) of
        (available, sts) \<Rightarrow> (available, m\<lparr>keyStatuses := sts\<rparr>))"

text \<open>\<^verbatim>\<open>availableKeys.includes(k)\<close> for a key that may be \<^verbatim>\<open>undefined\<close>.\<close>

definition includesKey :: "string list \<Rightarrow> string option \<Rightarrow> bool" where
  "includesKey available k = (case k of None \<Rightarrow> False | Some k' \<Rightarrow> k' \<in> set available)"

definition getCurrentKey :: "nat \<Rightarrow> APIKeyManager \<Rightarrow> string option \<times> APIKeyManager" where
  "getCurrentKey now m =
     (case getAvailableKeys now m of
        (availableKeys, m1) \<Rightarrow>
          if length availableKeys = 0 then (None, m1)
          else
            (let currentKey = nth_opt (apiKeys m1) (currentKeyIndex m1);
                 m2 = (if \<not> includesKey availableKeys currentKey
                       then (case findIndex (\<lambda>k. k \<in> set availableKeys) (apiKeys m1) of
                               Some nextKeyIndex \<Rightarrow> m1\<lparr>currentKeyIndex := nextKeyIndex\<rparr>
                             | None \<Rightarrow> m1)
                       else m1)
             in (nth_opt (apiKeys m2) (currentKeyIndex m2), m2)))"

text \<open>
  The \<^verbatim>\<open>while\<close> loop of \<^verbatim>\<open>rotateKey\<close>: the index it stops at, or \<open>None\<close> when the loop
  runs out after \<open>length keys\<close> attempts.
\<close>

function rotateLoop :: "string list \<Rightarrow> string list \<Rightarrow> nat \<Rightarrow> nat \<Rightarrow> nat option" where
  "rotateLoop availableKeys keys nextIndex attempts =
     (if attempts < length keys
      then (if includesKey availableKeys (nth_opt keys nextIndex) then Some nextIndex
            else rotateLoop availableKeys keys ((nextIndex + 1) mod length keys) (attempts + 1))
      else None)"
  by pat_completeness auto
termination
  by (relation "measure (\<lambda>(a, keys, i, attempts). length keys - attempts)") auto

declare rotateLoop.simps [simp del]

definition rotateKey :: "nat \<Rightarrow> APIKeyManager \<Rightarrow> string option \<times> APIKeyManager" where
  "rotateKey now m =
     (case getAvailableKeys now m of
        (availableKeys, m1) \<Rightarrow>
          if length availableKeys = 0 then (None, m1)
          else
            (case rotateLoop availableKeys (apiKeys m1)
                    ((currentKeyIndex m1 + 1) mod length (apiKeys m1)) 0 of
               Some nextIndex \<Rightarrow>
                 (nth_opt (apiKeys m1) nextIndex, m1\<lparr>currentKeyIndex := nextIndex\<rparr>)
             | None \<Rightarrow> (None, m1)))"

definition backoffDelay :: "nat \<Rightarrow> nat" where
  "backoffDelay n = min (baseRetryDelay * 2 ^ (n - 1)) maxRetryDelay"

definition reportError :: "string \<Rightarrow> bool \<Rightarrow> nat \<Rightarrow> nat \<Rightarrow> APIKeyManager \<Rightarrow> APIKeyManager" where
  "reportError error isQuotaError now midnight m =
     (case nth_opt (apiKeys m) (currentKeyIndex m) of
        None \<Rightarrow> m
      | Some currentKey \<Rightarrow>
          (case map_of (keyStatuses m) currentKey of
             None \<Rightarrow> m
           | Some status \<Rightarrow>
               (let s1 = status\<lparr>lastError := Some error, lastErrorTime := Some now,
                                consecutiveErrors := consecutiveErrors status + 1\<rparr>;
                    s2 = (if isQuotaError
                          then s1\<lparr>quotaExhausted := True, isActive := False,
                                   nextRetryTime := Some midnight\<rparr>
                          else s1\<lparr>nextRetryTime := Some (now + backoffDelay (consecutiveErrors s1)),
                                   isActive := False\<rparr>)
                in m\<lparr>keyStatuses := AList.update currentKey s2 (keyStatuses m)\<rparr>)))"

definition reportSuccess :: "APIKeyManager \<Rightarrow> APIKeyManager" where
  "reportSuccess m =
     (case nth_opt (apiKeys m) (currentKeyIndex m) of
        None \<Rightarrow> m
      | Some currentKey \<Rightarrow>
          (case map_of (keyStatuses m) currentKey of
             None \<Rightarrow> m
           | Some status \<Rightarrow>
               m\<lparr>keyStatuses :=
                    AList.update currentKey
                      (status\<lparr>consecutiveErrors := 0, lastError := None, lastErrorTime := None,
                              nextRetryTime := None, isActive := True\<rparr>)
                      (keyStatuses m)\<rparr>))"

definition resetStatus :: "APIKeyStatus \<Rightarrow> APIKeyStatus" where
  "resetStatus status =
     (if quotaExhausted status
      then status\<lparr>quotaExhausted := False, isActive := True, nextRetryTime := None\<rparr>
      else status)"

definition resetQuotaStatus :: "APIKeyManager \<Rightarrow> APIKeyManager" where
  "resetQuotaStatus m = m\<lparr>keyStatuses := map (\<lambda>(k, status). (k, resetStatus status)) (keyStatuses m)\<rparr>"

definition getTotalKeys :: "APIKeyManager \<Rightarrow> nat" where
  "getTotalKeys m = length (apiKeys m)"

definition getAvailableKeyCount :: "nat \<Rightarrow> APIKeyManager \<Rightarrow> nat \<times> APIKeyManager" where
  "getAvailableKeyCount now m =
     (case getAvailableKeys now m of (available, m1) \<Rightarrow> (length available, m1))"

definition hasAvailableKeys :: "nat \<Rightarrow> APIKeyManager \<Rightarrow> bool \<times> APIKeyManager" where
  "hasAvailableKeys now m =
     (case getAvailableKeys now m of (available, m1) \<Rightarrow> (length available > 0, m1))"

section \<open>Notions used to state the properties of the key manager\<close>

text \<open>
  What the filter callback of \<^verbatim>\<open>getAvailableKeys\<close> does to one status object, and
  whether it keeps the key: both depend only on the status and the clock.
\<close>

definition statusAfter :: "nat \<Rightarrow> APIKeyStatus \<Rightarrow> APIKeyStatus" where
  "statusAfter now status =
     (if truthyTime (nextRetryTime status) \<and> now \<ge> the (nextRetryTime status) \<and> \<not> quotaExhausted status
      then status\<lparr>isActive := True, nextRetryTime := None\<rparr> else status)"

definition statusAvailable :: "nat \<Rightarrow> APIKeyStatus \<Rightarrow> bool" where
  "statusAvailable now status =
     (\<not> (truthyTime (nextRetryTime status) \<and> now < the (nextRetryTime status))
      \<and> isActive (statusAfter now status) \<and> \<not> quotaExhausted status)"

definition keyAvailable :: "nat \<Rightarrow> (string \<times> APIKeyStatus) list \<Rightarrow> string \<Rightarrow> bool" where
  "keyAvailable now sts k = (case map_of sts k of None \<Rightarrow> False | Some s \<Rightarrow> statusAvailable now s)"

text \<open>A key is exhausted when its status object carries \<^verbatim>\<open>quotaExhausted = true\<close>.\<close>

definition keyExhausted :: "APIKeyManager \<Rightarrow> string \<Rightarrow> bool" where
  "keyExhausted m k = (case map_of (keyStatuses m) k of None \<Rightarrow> False | Some s \<Rightarrow> quotaExhausted s)"

definition exhaustedKeys :: "APIKeyManager \<Rightarrow> string set" where
  "exhaustedKeys m = {k \<in> set (apiKeys m). keyExhausted m k}"

text \<open>
  Every key of the pool is either exhausted or ready (active, with no retry time
  pending); and every key of the pool is ready.
\<close>

definition keysSettled :: "APIKeyManager \<Rightarrow> bool" where
  "keysSettled m =
     (\<forall>k \<in> set (apiKeys m). \<exists>s. map_of (keyStatuses m) k = Some s
          \<and> (quotaExhausted s \<or> (isActive s \<and> \<not> truthyTime (nextRetryTime s))))"

definition keysReady :: "APIKeyManager \<Rightarrow> bool" where
  "keysReady m =
     (\<forall>k \<in> set (apiKeys m). \<exists>s. map_of (keyStatuses m) k = Some s
          \<and> isActive s \<and> \<not> quotaExhausted s \<and> \<not> truthyTime (nextRetryTime s))"

text \<open>
  Sequences of calls on a manager. \<open>runCalls\<close> runs any calls but
  \<^verbatim>\<open>resetQuotaStatus\<close> and collects the keys handed out; \<open>quotaFailures n\<close> is \<open>n\<close> times
  "take the current key, the request fails on quota, report it"; \<open>transientErrors\<close>
  reports one transient error at each of the given times; \<open>rotateSeq\<close> calls
  \<^verbatim>\<open>rotateKey\<close> at each of the given times.
\<close>

datatype mgr_call =
    CallGetCurrentKey nat
  | CallRotateKey nat
  | CallReportError string bool nat nat
  | CallReportSuccess
  | CallGetAvailableKeyCount nat
  | CallHasAvailableKeys nat

fun runCall :: "mgr_call \<Rightarrow> APIKeyManager \<Rightarrow> string option \<times> APIKeyManager" where
  "runCall (CallGetCurrentKey now) m = getCurrentKey now m"
| "runCall (CallRotateKey now) m = rotateKey now m"
| "runCall (CallReportError error isQuotaError now midnight) m =
     (None, reportError error isQuotaError now midnight m)"
| "runCall CallReportSuccess m = (None, reportSuccess m)"
| "runCall (CallGetAvailableKeyCount now) m = (None, snd (getAvailableKeyCount now m))"
| "runCall (CallHasAvailableKeys now) m = (None, snd (hasAvailableKeys now m))"

fun runCalls :: "mgr_call list \<Rightarrow> APIKeyManager \<Rightarrow> string option list \<times> APIKeyManager" where
  "runCalls [] m = ([], m)"
| "runCalls (c # cs) m =
     (case runCall c m of
        (r, m') \<Rightarrow> (case runCalls cs m' of (rs, m'') \<Rightarrow> (r # rs, m'')))"

definition quotaStep :: "nat \<Rightarrow> nat \<Rightarrow> APIKeyManager \<Rightarrow> APIKeyManager" where
  "quotaStep now mid m = reportError ''quotaExceeded'' True now mid (snd (getCurrentKey now m))"

fun quotaFailures :: "nat \<Rightarrow> nat \<Rightarrow> nat \<Rightarrow> APIKeyManager \<Rightarrow> APIKeyManager" where
  "quotaFailures 0 now midnight m = m"
| "quotaFailures (Suc n) now midnight m =
     quotaFailures n now midnight (quotaStep now midnight m)"

fun transientErrors :: "nat list \<Rightarrow> nat \<Rightarrow> APIKeyManager \<Rightarrow> APIKeyManager" where
  "transientErrors [] midnight m = m"
| "transientErrors (t # ts) midnight m =
     transientErrors ts midnight (reportError ''timeout'' False t midnight m)"

fun rotateSeq :: "nat list \<Rightarrow> APIKeyManager \<Rightarrow> string option list \<times> APIKeyManager" where
  "rotateSeq [] m = ([], m)"
| "rotateSeq (t # ts) m =
     (case rotateKey t m of
        (r, m') \<Rightarrow> (case rotateSeq ts m' of (rs, m'') \<Rightarrow> (r # rs, m'')))"

section \<open>Strings\<close>

text \<open>
  The string methods the client uses: \<^verbatim>\<open>trim\<close>, \<^verbatim>\<open>toLowerCase\<close>, \<^verbatim>\<open>includes\<close>, \<^verbatim>\<open>join(',')\<close> and
  the decimal rendering of a number in a template string. A string is a list of
  characters with the codes 0 to 255, read as the code units U+0000 to U+00FF. Among
  them \<^verbatim>\<open>trim\<close> strips tab, line feed, vertical tab, form feed, carriage return, space and
  the no-break space U+00A0.
\<close>

definition isWhiteSpace :: "char \<Rightarrow> bool" where
  "isWhiteSpace ch = ((of_char ch :: nat) \<in> {9, 10, 11, 12, 13, 32, 160})"

definition trim :: "string \<Rightarrow> string" where
  "trim s = rev (dropWhile isWhiteSpace (rev (dropWhile isWhiteSpace s)))"

text \<open>
  The upper-case letters of the range are A to Z (codes 65 to 90) and U+00C0 to U+00DE
  without the multiplication sign U+00D7 (codes 192 to 222 without 215); the lower-case
  letter is 32 further, which sets the bit of weight 32.
\<close>

definition isUpper :: "char \<Rightarrow> bool" where
  "isUpper ch =
     ((65 \<le> (of_char ch :: nat) \<and> (of_char ch :: nat) \<le> 90)
      \<or> (192 \<le> (of_char ch :: nat) \<and> (of_char ch :: nat) \<le> 222 \<and> (of_char ch :: nat) \<noteq> 215))"

definition lowerChar :: "char \<Rightarrow> char" where
  "lowerChar ch =
     (if isUpper ch
      then (case ch of Char b0 b1 b2 b3 b4 b5 b6 b7 \<Rightarrow> Char b0 b1 b2 b3 b4 True b6 b7)
      else ch)"

definition toLowerCase :: "string \<Rightarrow> string" where
  "toLowerCase s = map lowerChar s"

fun includesStr :: "string \<Rightarrow> string \<Rightarrow> bool" where
  "includesStr [] needle = (needle = [])"
| "includesStr (ch # s) needle = (prefix needle (ch # s) \<or> includesStr s needle)"

fun joinComma :: "string list \<Rightarrow> string" where
  "joinComma [] = []"
| "joinComma [s] = s"
| "joinComma (s # t # ss) = s @ '','' @ joinComma (t # ss)"

fun numberToString :: "nat \<Rightarrow> string" where
  "numberToString n =
     (if n < 10 then [''0123456789'' ! n]
      else numberToString (n div 10) @ [''0123456789'' ! (n mod 10)])"

declare numberToString.simps [simp del]

section \<open>YouTubeAPIClient\<close>

subsection \<open>Data\<close>

text \<open>
  Channels, videos and the provider's items, with the fields the client reads. A date
  is the millisecond time stamp \<^verbatim>\<open>new Date(string)\<close> parses, \<open>None\<close> for an invalid
  date; the subscriber count is what \<^verbatim>\<open>parseInt\<close> returns, \<open>None\<close> for NaN. Confidence
  scores are real numbers.
\<close>

record Channel =
  c_id :: string
  c_title :: string
  c_thumbnailUrl :: string
  subscriberCount :: "int option"
  uploadsPlaylistId :: string

record Video =
  v_id :: string
  v_title :: string
  v_thumbnailUrl :: string
  v_channelId :: string
  v_channelTitle :: string
  v_publishedAt :: "int option"
  v_duration :: string
  v_description :: string

record APIError =
  code :: int
  message :: string
  userMessage :: string
  retryable :: bool

record Thumbnails =
  thumb_default :: string
  thumb_medium :: "string option"
  thumb_high :: "string option"

record YouTubeChannelSearchItem =
  si_channelId :: string

record YouTubeChannelItem =
  ci_id :: string
  ci_title :: string
  ci_thumbnails :: Thumbnails
  ci_subscriberCount :: "int option"
  ci_uploads :: string

record YouTubePlaylistItem =
  pi_publishedAt :: "int option"
  pi_videoId :: string

record YouTubeVideoItem =
  vi_id :: string
  vi_publishedAt :: "int option"
  vi_channelId :: string
  vi_title :: string
  vi_description :: string
  vi_thumbnails :: Thumbnails
  vi_channelTitle :: string
  vi_duration :: string

text \<open>A hit of the search service (\<^verbatim>\<open>SearchResult\<close>).\<close>

record SearchResult =
  sr_id :: string
  sr_title :: string
  sr_thumbnailUrl :: string
  sr_videoId :: string
  sr_videoTitle :: string
  confidence :: real

text \<open>
  The body of a provider response as \<^verbatim>\<open>validateResponse\<close> sees it: a falsy value, or an
  object with some fields, whose \<^verbatim>\<open>items\<close> field is missing, not an array, or an array.
\<close>

datatype 'i items_field = ItemsMissing | ItemsNotArray | ItemsArray "'i list"

datatype 'i api_body = BodyFalsy | Body "string list" "'i items_field"

text \<open>
  What a \<^verbatim>\<open>catch\<close> block can receive: an \<^verbatim>\<open>APIError\<close> object thrown by the client itself,
  an axios error (with the status and the provider's \<^verbatim>\<open>data.error.message\<close> when there
  was a response), another \<^verbatim>\<open>Error\<close> with its message, or any other value.
\<close>

record AxiosResponse =
  ar_status :: int
  dataErrorMessage :: "string option"

record AxiosError =
  ae_message :: string
  ae_response :: "AxiosResponse option"

datatype thrown =
    ThrownAPIError APIError
  | ThrownAxios AxiosError
  | ThrownError string
  | ThrownOther

text \<open>
  The video cache holds arrays of videos and, through the cast in \<^verbatim>\<open>searchChannels\<close>,
  arrays of channels; at run time both are plain arrays.
\<close>

datatype js_array = VideoArr "Video list" | ChannelArr "Channel list"

text \<open>The calls that leave the client, in the order they are made.\<close>

datatype outbound =
    HealthProbe
  | BridgeSearch string nat
  | ProviderSearch string string nat
  | ProviderChannels string string
  | ProviderPlaylistItems string string nat
  | ProviderVideos string string

text \<open>
  The outside world: the search service (health probe: \<open>None\<close> when \<^verbatim>\<open>fetch\<close> throws,
  otherwise \<^verbatim>\<open>response.ok\<close>; search: the hits, or the message of the error thrown),
  the provider's four endpoints, each a function of the API key and the request
  parameters, and the \<^verbatim>\<open>Date\<close> arithmetic that steps a time stamp back by a number of
  calendar days.
\<close>

record env =
  bridge_health :: "bool option"
  bridge_search :: "string \<Rightarrow> nat \<Rightarrow> string + SearchResult list"
  api_search :: "string \<Rightarrow> string \<Rightarrow> nat \<Rightarrow> AxiosError + YouTubeChannelSearchItem api_body"
  api_channels :: "string \<Rightarrow> string \<Rightarrow> AxiosError + YouTubeChannelItem api_body"
  api_playlistItems :: "string \<Rightarrow> string \<Rightarrow> nat \<Rightarrow> AxiosError + YouTubePlaylistItem api_body"
  api_videos :: "string \<Rightarrow> string \<Rightarrow> AxiosError + YouTubeVideoItem api_body"
  dateMinusDays :: "nat \<Rightarrow> nat \<Rightarrow> int"

record SearchServiceConfig =
  baseUrl :: string
  timeout :: "nat option"

record YouTubeAPIClientConfig =
  cfg_apiKey :: "string option"
  cfg_cache :: "(Channel, js_array) APICache option"
  cfg_maxResults :: "nat option"
  cfg_videoTimeWindowDays :: "nat option"
  cfg_searchService :: "SearchServiceConfig option"
  cfg_useSearchService :: "bool option"

text \<open>The client object; \<open>calls\<close> records its outbound calls.\<close>

record YouTubeAPIClient =
  apiKey :: string
  cache :: "(Channel, js_array) APICache"
  maxResults :: nat
  videoTimeWindowDays :: nat
  searchService :: "SearchServiceConfig option"
  useSearchService :: bool
  calls :: "outbound list"

subsection \<open>Construction and errors\<close>

definition YouTubeAPIClient_new :: "YouTubeAPIClientConfig \<Rightarrow> string + YouTubeAPIClient" where
  "YouTubeAPIClient_new config =
     (case cfg_apiKey config of
        None \<Rightarrow> Inl ''YouTube API key is required''
      | Some k \<Rightarrow>
          if length (trim k) = 0 then Inl ''YouTube API key is required''
          else
            (let use = (case cfg_useSearchService config of None \<Rightarrow> True | Some b \<Rightarrow> b)
             in Inr \<lparr>apiKey = k,
                     cache = (case cfg_cache config of None \<Rightarrow> APICache_new None | Some c \<Rightarrow> c),
                     maxResults = (case cfg_maxResults config of None \<Rightarrow> 50 | Some n \<Rightarrow> n),
                     videoTimeWindowDays =
                       (case cfg_videoTimeWindowDays config of None \<Rightarrow> 30 | Some n \<Rightarrow> n),
                     searchService = (if use then cfg_searchService config else None),
                     useSearchService = use,
                     calls = []\<rparr>))"

definition createAPIError :: "int \<Rightarrow> string \<Rightarrow> string \<Rightarrow> bool \<Rightarrow> APIError" where
  "createAPIError c msg userMsg r = \<lparr>code = c, message = msg, userMessage = userMsg, retryable = r\<rparr>"

definition handleError :: "thrown \<Rightarrow> APIError" where
  "handleError error =
     (case error of
        ThrownAPIError e \<Rightarrow> e
      | ThrownAxios axiosError \<Rightarrow>
          (case ae_response axiosError of
             None \<Rightarrow>
               createAPIError 0 (ae_message axiosError)
                 ''Unable to connect to YouTube. Please check your internet connection.'' True
           | Some response \<Rightarrow>
               (let msg = (case dataErrorMessage response of
                             None \<Rightarrow> ae_message axiosError | Some m \<Rightarrow> m)
                in if ar_status response = 400
                   then createAPIError 400 msg
                          ''Invalid request. Please check your input and try again.'' False
                   else if ar_status response = 403
                   then (if includesStr (toLowerCase msg) ''quota''
                         then createAPIError 403 msg
                                ''YouTube API quota exceeded. The quota resets daily at midnight PST. Try again in a few hours or contact support for a premium API key.''
                                False
                         else createAPIError 403 msg
                                ''Access denied. Please check your API key configuration.'' False)
                   else if ar_status response = 404
                   then createAPIError 404 msg ''The requested resource was not found.'' False
                   else if ar_status response = 429
                   then createAPIError 429 msg
                          ''Too many requests. Please wait a moment and try again.'' True
                   else if ar_status response = 500 \<or> ar_status response = 503
                   then createAPIError (ar_status response) msg
                          ''YouTube service is temporarily unavailable. Please try again later.''
                          True
                   else createAPIError (ar_status response) msg
                          ''An unexpected error occurred. Please try again.'' True))
      | ThrownError msg \<Rightarrow>
          createAPIError 500 msg ''An unexpected error occurred. Please try again.'' True
      | ThrownOther \<Rightarrow>
          createAPIError 500 ''Unknown error'' ''An unexpected error occurred. Please try again.''
            True)"

definition hasField :: "'i api_body \<Rightarrow> string \<Rightarrow> bool" where
  "hasField body field =
     (case body of
        BodyFalsy \<Rightarrow> False
      | Body fs its \<Rightarrow>
          if field = ''items'' then its \<noteq> ItemsMissing else field \<in> set fs)"

definition validateResponse :: "'i api_body \<Rightarrow> string list \<Rightarrow> APIError + unit" where
  "validateResponse response requiredFields =
     (case response of
        BodyFalsy \<Rightarrow>
          Inl (createAPIError 500 ''Empty response from API''
                 ''Received an invalid response from YouTube'' True)
      | Body fs its \<Rightarrow>
          (case find (\<lambda>field. \<not> hasField response field) requiredFields of
             Some field \<Rightarrow>
               Inl (createAPIError 500 (''Missing required field: '' @ field)
                      ''Received an invalid response from YouTube'' True)
           | None \<Rightarrow>
               if its = ItemsNotArray
               then Inl (createAPIError 500 ''Invalid items field in response''
                           ''Received an invalid response from YouTube'' True)
               else Inr ()))"

text \<open>\<^verbatim>\<open>response.items\<close>, read after \<^verbatim>\<open>validateResponse(response, ['items'])\<close> has passed.\<close>

definition itemsOf :: "'i api_body \<Rightarrow> 'i list" where
  "itemsOf body = (case body of Body fs (ItemsArray xs) \<Rightarrow> xs | _ \<Rightarrow> [])"

definition thumbnailOf :: "Thumbnails \<Rightarrow> string" where
  "thumbnailOf t =
     (case thumb_high t of
        Some u \<Rightarrow> u
      | None \<Rightarrow> (case thumb_medium t of Some u \<Rightarrow> u | None \<Rightarrow> thumb_default t))"

definition mapChannelItem :: "YouTubeChannelItem \<Rightarrow> Channel" where
  "mapChannelItem item =
     \<lparr>c_id = ci_id item, c_title = ci_title item, c_thumbnailUrl = thumbnailOf (ci_thumbnails item),
      subscriberCount = ci_subscriberCount item, uploadsPlaylistId = ci_uploads item\<rparr>"

definition mapVideoItem :: "YouTubeVideoItem \<Rightarrow> Video" where
  "mapVideoItem item =
     \<lparr>v_id = vi_id item, v_title = vi_title item, v_thumbnailUrl = thumbnailOf (vi_thumbnails item),
      v_channelId = vi_channelId item, v_channelTitle = vi_channelTitle item,
      v_publishedAt = vi_publishedAt item, v_duration = vi_duration item,
      v_description = vi_description item\<rparr>"

subsection \<open>Requests\<close>

text \<open>
  \<^verbatim>\<open>makeAPIRequest\<close> for each of the four endpoints: one \<^verbatim>\<open>axios.get\<close> with the client's
  key among the parameters; whatever axios throws is thrown on.
\<close>

definition makeAPIRequest_search ::
  "env \<Rightarrow> string \<Rightarrow> nat \<Rightarrow> YouTubeAPIClient
     \<Rightarrow> (thrown + YouTubeChannelSearchItem api_body) \<times> YouTubeAPIClient" where
  "makeAPIRequest_search w q n c =
     (case api_search w (apiKey c) q n of Inl e \<Rightarrow> Inl (ThrownAxios e) | Inr b \<Rightarrow> Inr b,
      c\<lparr>calls := calls c @ [ProviderSearch (apiKey c) q n]\<rparr>)"

definition makeAPIRequest_channels ::
  "env \<Rightarrow> string \<Rightarrow> YouTubeAPIClient
     \<Rightarrow> (thrown + YouTubeChannelItem api_body) \<times> YouTubeAPIClient" where
  "makeAPIRequest_channels w ids c =
     (case api_channels w (apiKey c) ids of Inl e \<Rightarrow> Inl (ThrownAxios e) | Inr b \<Rightarrow> Inr b,
      c\<lparr>calls := calls c @ [ProviderChannels (apiKey c) ids]\<rparr>)"

definition makeAPIRequest_playlistItems ::
  "env \<Rightarrow> string \<Rightarrow> nat \<Rightarrow> YouTubeAPIClient
     \<Rightarrow> (thrown + YouTubePlaylistItem api_body) \<times> YouTubeAPIClient" where
  "makeAPIRequest_playlistItems w playlistId n c =
     (case api_playlistItems w (apiKey c) playlistId n of
        Inl e \<Rightarrow> Inl (ThrownAxios e) | Inr b \<Rightarrow> Inr b,
      c\<lparr>calls := calls c @ [ProviderPlaylistItems (apiKey c) playlistId n]\<rparr>)"

definition makeAPIRequest_videos ::
  "env \<Rightarrow> string \<Rightarrow> YouTubeAPIClient
     \<Rightarrow> (thrown + YouTubeVideoItem api_body) \<times> YouTubeAPIClient" where
  "makeAPIRequest_videos w ids c =
     (case api_videos w (apiKey c) ids of Inl e \<Rightarrow> Inl (ThrownAxios e) | Inr b \<Rightarrow> Inr b,
      c\<lparr>calls := calls c @ [ProviderVideos (apiKey c) ids]\<rparr>)"

text \<open>
  The body of a \<^verbatim>\<open>try\<close> block up to the validated items: the request, then
  \<^verbatim>\<open>validateResponse(response, ['items'])\<close>; anything thrown reaches the \<^verbatim>\<open>catch\<close>, which
  throws \<^verbatim>\<open>handleError(error)\<close>.
\<close>

definition validatedItems ::
  "(thrown + 'i api_body) \<times> YouTubeAPIClient \<Rightarrow> (APIError + 'i list) \<times> YouTubeAPIClient" where
  "validatedItems rc =
     (case rc of
        (Inl t, c) \<Rightarrow> (Inl (handleError t), c)
      | (Inr response, c) \<Rightarrow>
          (case validateResponse response [''items''] of
             Inl e \<Rightarrow> (Inl (handleError (ThrownAPIError e)), c)
           | Inr u \<Rightarrow> (Inr (itemsOf response), c)))"

definition getChannelsByIds ::
  "env \<Rightarrow> string list \<Rightarrow> YouTubeAPIClient \<Rightarrow> (APIError + Channel list) \<times> YouTubeAPIClient" where
  "getChannelsByIds w channelIds c =
     (if length channelIds = 0 then (Inr [], c)
      else
        (case validatedItems (makeAPIRequest_channels w (joinComma channelIds) c) of
           (Inl e, c1) \<Rightarrow> (Inl e, c1)
         | (Inr its, c1) \<Rightarrow> (Inr (map mapChannelItem its), c1)))"

text \<open>The batches of at most 50 ids, and the loop over them.\<close>

fun batchesOf :: "nat \<Rightarrow> 'a list \<Rightarrow> 'a list list" where
  "batchesOf batchSize xs =
     (if batchSize = 0 \<or> xs = [] then []
      else take batchSize xs # batchesOf batchSize (drop batchSize xs))"

declare batchesOf.simps [simp del]

fun fetchBatches ::
  "env \<Rightarrow> string list list \<Rightarrow> Video list \<Rightarrow> YouTubeAPIClient
     \<Rightarrow> (APIError + Video list) \<times> YouTubeAPIClient" where
  "fetchBatches w [] allVideos c = (Inr allVideos, c)"
| "fetchBatches w (batch # batches) allVideos c =
     (case validatedItems (makeAPIRequest_videos w (joinComma batch) c) of
        (Inl e, c1) \<Rightarrow> (Inl e, c1)
      | (Inr its, c1) \<Rightarrow> fetchBatches w batches (allVideos @ map mapVideoItem its) c1)"

definition getVideoDetails ::
  "env \<Rightarrow> string list \<Rightarrow> YouTubeAPIClient \<Rightarrow> (APIError + Video list) \<times> YouTubeAPIClient" where
  "getVideoDetails w videoIds c =
     (if length videoIds = 0 then (Inr [], c)
      else fetchBatches w (batchesOf 50 videoIds) [] c)"

definition getChannelInfo ::
  "env \<Rightarrow> string \<Rightarrow> nat \<Rightarrow> YouTubeAPIClient \<Rightarrow> (APIError + Channel) \<times> YouTubeAPIClient" where
  "getChannelInfo w channelId now c =
     (if length (trim channelId) = 0
      then (Inl (createAPIError 400 ''Channel ID cannot be empty''
                   ''Please provide a valid channel ID'' False), c)
      else
        (case getChannel channelId now (cache c) of
           (Some cachedChannel, cache1) \<Rightarrow> (Inr cachedChannel, c\<lparr>cache := cache1\<rparr>)
         | (None, cache1) \<Rightarrow>
             (case validatedItems (makeAPIRequest_channels w channelId (c\<lparr>cache := cache1\<rparr>)) of
                (Inl e, c1) \<Rightarrow> (Inl e, c1)
              | (Inr its, c1) \<Rightarrow>
                  (case its of
                     [] \<Rightarrow>
                       (Inl (handleError (ThrownAPIError
                               (createAPIError 404 ''Channel not found''
                                  ''The channel you requested could not be found'' False))), c1)
                   | item # rest \<Rightarrow>
                       (let channel = mapChannelItem item
                        in (Inr channel,
                            c1\<lparr>cache := setChannel channelId channel None now (cache c1)\<rparr>))))))"

text \<open>The cache key of a channel's videos: \<^verbatim>\<open>`videos:${channelId}:${limit}`\<close>.\<close>

definition videosCacheKey :: "string \<Rightarrow> nat \<Rightarrow> string" where
  "videosCacheKey channelId limit = ''videos:'' @ channelId @ '':'' @ numberToString limit"

text \<open>
  The filter of \<^verbatim>\<open>getChannelVideos\<close>: \<^verbatim>\<open>publishedDate >= publishedAfter\<close>, false for an
  invalid date.
\<close>

definition publishedSince :: "int \<Rightarrow> YouTubePlaylistItem \<Rightarrow> bool" where
  "publishedSince publishedAfter item =
     (case pi_publishedAt item of None \<Rightarrow> False | Some t \<Rightarrow> t \<ge> publishedAfter)"

definition getChannelVideos ::
  "env \<Rightarrow> string \<Rightarrow> nat option \<Rightarrow> nat \<Rightarrow> YouTubeAPIClient
     \<Rightarrow> (APIError + js_array) \<times> YouTubeAPIClient" where
  "getChannelVideos w channelId maxResultsArg now c =
     (if length (trim channelId) = 0
      then (Inl (createAPIError 400 ''Channel ID cannot be empty''
                   ''Please provide a valid channel ID'' False), c)
      else
        (let limit = (case maxResultsArg of None \<Rightarrow> maxResults c | Some n \<Rightarrow> n);
             cacheKey = videosCacheKey channelId limit
         in case getVideos cacheKey now (cache c) of
              (Some cachedVideos, cache1) \<Rightarrow> (Inr cachedVideos, c\<lparr>cache := cache1\<rparr>)
            | (None, cache1) \<Rightarrow>
                (case getChannelInfo w channelId now (c\<lparr>cache := cache1\<rparr>) of
                   (Inl e, c1) \<Rightarrow> (Inl (handleError (ThrownAPIError e)), c1)
                 | (Inr channel, c1) \<Rightarrow>
                     (let publishedAfter = dateMinusDays w now (videoTimeWindowDays c1)
                      in case validatedItems
                                (makeAPIRequest_playlistItems w (uploadsPlaylistId channel) limit c1) of
                           (Inl e, c2) \<Rightarrow> (Inl e, c2)
                         | (Inr its, c2) \<Rightarrow>
                             (let videoIds = map pi_videoId (filter (publishedSince publishedAfter) its)
                              in if length videoIds = 0 then (Inr (VideoArr []), c2)
                                 else
                                   (case getVideoDetails w videoIds c2 of
                                      (Inl e, c3) \<Rightarrow> (Inl (handleError (ThrownAPIError e)), c3)
                                    | (Inr videos, c3) \<Rightarrow>
                                        (Inr (VideoArr videos),
                                         c3\<lparr>cache := setVideos cacheKey (VideoArr videos) None now
                                                         (cache c3)\<rparr>)))))))"

subsection \<open>The search service\<close>

definition isHealthy :: "env \<Rightarrow> YouTubeAPIClient \<Rightarrow> bool \<times> YouTubeAPIClient" where
  "isHealthy w c =
     (case bridge_health w of None \<Rightarrow> False | Some ok \<Rightarrow> ok,
      c\<lparr>calls := calls c @ [HealthProbe]\<rparr>)"

definition SearchService_searchChannels ::
  "env \<Rightarrow> string \<Rightarrow> nat \<Rightarrow> YouTubeAPIClient
     \<Rightarrow> (thrown + SearchResult list) \<times> YouTubeAPIClient" where
  "SearchService_searchChannels w query n c =
     (if length (trim query) = 0 then (Inl (ThrownError ''Search query cannot be empty''), c)
      else
        (case bridge_search w (trim query) n of Inl msg \<Rightarrow> Inl (ThrownError msg) | Inr hits \<Rightarrow> Inr hits,
         c\<lparr>calls := calls c @ [BridgeSearch (trim query) n]\<rparr>))"

text \<open>\<^verbatim>\<open>[...new Set(xs)]\<close>: the distinct elements in the order of their first occurrence.\<close>

definition uniqueInOrder :: "'a list \<Rightarrow> 'a list" where
  "uniqueInOrder xs = fold (\<lambda>x acc. if x \<in> set acc then acc else acc @ [x]) xs []"

definition extractVideoIds :: "SearchResult list \<Rightarrow> string list" where
  "extractVideoIds searchResults = uniqueInOrder (map sr_videoId searchResults)"

text \<open>
  The \<^verbatim>\<open>forEach\<close> that fills \<^verbatim>\<open>channelRelevanceMap\<close>, and the number the comparator of
  the sort reads from it (\<^verbatim>\<open>get(id) || 0\<close>).
\<close>

definition relevanceStep ::
  "SearchResult list \<Rightarrow> Video \<Rightarrow> (string \<rightharpoonup> real) \<Rightarrow> (string \<rightharpoonup> real)" where
  "relevanceStep searchResults video m =
     (case find (\<lambda>sr. sr_videoId sr = v_id video) searchResults of
        None \<Rightarrow> m
      | Some searchResult \<Rightarrow>
          (let currentConfidence = (case m (v_channelId video) of None \<Rightarrow> 0 | Some x \<Rightarrow> x)
           in m(v_channelId video \<mapsto> max currentConfidence (confidence searchResult))))"

definition channelRelevanceMap :: "SearchResult list \<Rightarrow> Video list \<Rightarrow> (string \<rightharpoonup> real)" where
  "channelRelevanceMap searchResults videoDetails =
     fold (relevanceStep searchResults) videoDetails Map.empty"

definition relevanceOf :: "(string \<rightharpoonup> real) \<Rightarrow> Channel \<Rightarrow> real" where
  "relevanceOf m ch = (case m (c_id ch) of None \<Rightarrow> 0 | Some x \<Rightarrow> x)"

text \<open>
  \<^verbatim>\<open>channels.sort((a, b) => confidenceB - confidenceA)\<close>: the sort is stable, so it is the
  insertion sort on the negated confidence.
\<close>

definition sortByRelevance :: "(string \<rightharpoonup> real) \<Rightarrow> Channel list \<Rightarrow> Channel list" where
  "sortByRelevance m channels = sort_key (\<lambda>ch. - relevanceOf m ch) channels"

definition searchCacheDuration :: nat where
  "searchCacheDuration = 24 * 60 * 60 * 1000"

definition searchChannelsViaService ::
  "env \<Rightarrow> string \<Rightarrow> string \<Rightarrow> nat \<Rightarrow> YouTubeAPIClient
     \<Rightarrow> (APIError + Channel list) \<times> YouTubeAPIClient" where
  "searchChannelsViaService w query cacheKey now c =
     (case SearchService_searchChannels w query (min (maxResults c) 25) c of
        (Inl t, c1) \<Rightarrow> (Inl (handleError t), c1)
      | (Inr searchResults, c1) \<Rightarrow>
          if length searchResults = 0 then (Inr [], c1)
          else
            (case getVideoDetails w (extractVideoIds searchResults) c1 of
               (Inl e, c2) \<Rightarrow> (Inl (handleError (ThrownAPIError e)), c2)
             | (Inr videoDetails, c2) \<Rightarrow>
                 (let channelIds = uniqueInOrder (map v_channelId videoDetails)
                  in if length channelIds = 0 then (Inr [], c2)
                     else
                       (case getChannelsByIds w channelIds c2 of
                          (Inl e, c3) \<Rightarrow> (Inl (handleError (ThrownAPIError e)), c3)
                        | (Inr channels, c3) \<Rightarrow>
                            (let sortedChannels = sortByRelevance
                                            (channelRelevanceMap searchResults videoDetails) channels
                             in (Inr sortedChannels,
                                 c3\<lparr>cache := setVideos cacheKey (ChannelArr sortedChannels)
                                                 (Some searchCacheDuration) now (cache c3)\<rparr>))))))"

definition searchChannelsViaAPI ::
  "env \<Rightarrow> string \<Rightarrow> string \<Rightarrow> nat \<Rightarrow> YouTubeAPIClient
     \<Rightarrow> (APIError + Channel list) \<times> YouTubeAPIClient" where
  "searchChannelsViaAPI w query cacheKey now c =
     (case validatedItems (makeAPIRequest_search w query (min (maxResults c) 25) c) of
        (Inl e, c1) \<Rightarrow> (Inl e, c1)
      | (Inr its, c1) \<Rightarrow>
          (let channelIds = map si_channelId its
           in if length channelIds = 0 then (Inr [], c1)
              else
                (case getChannelsByIds w channelIds c1 of
                   (Inl e, c2) \<Rightarrow> (Inl (handleError (ThrownAPIError e)), c2)
                 | (Inr channels, c2) \<Rightarrow>
                     (Inr channels,
                      c2\<lparr>cache := setVideos cacheKey (ChannelArr channels)
                                      (Some searchCacheDuration) now (cache c2)\<rparr>))))"

definition searchCacheKey :: "string \<Rightarrow> string" where
  "searchCacheKey query = ''search:'' @ trim (toLowerCase query)"

text \<open>
  A list of channels leaves \<^verbatim>\<open>searchChannels\<close> as the array it is; a failure of the native
  search leaves it as it is thrown.
\<close>

definition asChannelArray ::
  "(APIError + Channel list) \<times> YouTubeAPIClient \<Rightarrow> (APIError + js_array) \<times> YouTubeAPIClient" where
  "asChannelArray rc =
     (case rc of
        (Inl e, c) \<Rightarrow> (Inl e, c)
      | (Inr channels, c) \<Rightarrow> (Inr (ChannelArr channels), c))"

definition searchChannels ::
  "env \<Rightarrow> string \<Rightarrow> nat \<Rightarrow> YouTubeAPIClient \<Rightarrow> (APIError + js_array) \<times> YouTubeAPIClient" where
  "searchChannels w query now c =
     (if length (trim query) = 0
      then (Inl (createAPIError 400 ''Search query cannot be empty''
                   ''Please enter a channel name to search'' False), c)
      else
        (let cacheKey = searchCacheKey query
         in case getVideos cacheKey now (cache c) of
              (Some cachedChannels, cache1) \<Rightarrow> (Inr cachedChannels, c\<lparr>cache := cache1\<rparr>)
            | (None, cache1) \<Rightarrow>
                (let c0 = c\<lparr>cache := cache1\<rparr>
                 in if searchService c0 \<noteq> None \<and> useSearchService c0
                    then
                      (case isHealthy w c0 of
                         (True, c1) \<Rightarrow>
                           (case searchChannelsViaService w query cacheKey now c1 of
                              (Inr channels, c2) \<Rightarrow> (Inr (ChannelArr channels), c2)
                            | (Inl e, c2) \<Rightarrow>
                                asChannelArray (searchChannelsViaAPI w query cacheKey now c2))
                       | (False, c1) \<Rightarrow>
                           asChannelArray (searchChannelsViaAPI w query cacheKey now c1))
                    else asChannelArray (searchChannelsViaAPI w query cacheKey now c0))))"

section \<open>Notions used to state the properties of the client\<close>

text \<open>
  The provider's quota signal as \<^verbatim>\<open>handleError\<close> recognises it (status 403 and a message
  that contains "quota" in any letter case), and the failure it is turned into.
\<close>

definition quotaSignal :: "AxiosError \<Rightarrow> string \<Rightarrow> bool" where
  "quotaSignal a msg =
     (case ae_response a of
        None \<Rightarrow> False
      | Some r \<Rightarrow> ar_status r = 403
          \<and> msg = (case dataErrorMessage r of None \<Rightarrow> ae_message a | Some m \<Rightarrow> m)
          \<and> includesStr (toLowerCase msg) ''quota'')"

definition quotaExceededError :: "string \<Rightarrow> APIError" where
  "quotaExceededError msg =
     \<lparr>code = 403, message = msg,
      userMessage = ''YouTube API quota exceeded. The quota resets daily at midnight PST. Try again in a few hours or contact support for a premium API key.'',
      retryable = False\<rparr>"

text \<open>Two client states make their provider requests with the same key and limit.\<close>

definition sameSettings :: "YouTubeAPIClient \<Rightarrow> YouTubeAPIClient \<Rightarrow> bool" where
  "sameSettings c c' = (apiKey c' = apiKey c \<and> maxResults c' = maxResults c)"

text \<open>
  A search that gets past the validation and the cache, and a client that is to use the
  search service; the client after the cache lookup and the health probe.
\<close>

definition searchMisses :: "string \<Rightarrow> nat \<Rightarrow> YouTubeAPIClient \<Rightarrow> bool" where
  "searchMisses query now c =
     (length (trim query) \<noteq> 0 \<and> fst (getVideos (searchCacheKey query) now (cache c)) = None)"

definition bridgeEnabled :: "YouTubeAPIClient \<Rightarrow> bool" where
  "bridgeEnabled c = (searchService c \<noteq> None \<and> useSearchService c)"

definition afterProbe :: "string \<Rightarrow> nat \<Rightarrow> YouTubeAPIClient \<Rightarrow> YouTubeAPIClient" where
  "afterProbe query now c =
     c\<lparr>cache := snd (getVideos (searchCacheKey query) now (cache c)),
       calls := calls c @ [HealthProbe]\<rparr>"



text \<open>
  The confidences that reach the relevance of a channel: for each resolved video of the
  channel, the confidence of the first hit that carries the video's id.
\<close>

definition firstHitConfidences :: "SearchResult list \<Rightarrow> Video list \<Rightarrow> string \<Rightarrow> real list" where
  "firstHitConfidences hits videos cid =
     map confidence
       (List.map_filter
          (\<lambda>v. if v_channelId v = cid then find (\<lambda>sr. sr_videoId sr = v_id v) hits else None)
          videos)"

text \<open>
  Modelled from the spec's words, for comparison with \<open>channelRelevanceMap\<close>: "the
  maximum confidence score among the search hits whose videos resolve to that channel".
\<close>

definition specMaxConfidence :: "SearchResult list \<Rightarrow> Video list \<Rightarrow> string \<Rightarrow> real" where
  "specMaxConfidence hits videos cid =
     Max (set (map confidence
       (filter (\<lambda>sr. \<exists>v \<in> set videos. v_id v = sr_videoId sr \<and> v_channelId v = cid) hits)))"

text \<open>
  The calls a run of a method has added to the log, and whether a call carries a given
  key (the calls to the search service carry none).
\<close>

definition newCalls :: "YouTubeAPIClient \<Rightarrow> YouTubeAPIClient \<Rightarrow> outbound list" where
  "newCalls c c' = drop (length (calls c)) (calls c')"

definition usesKey :: "string \<Rightarrow> outbound \<Rightarrow> bool" where
  "usesKey k call =
     (case call of
        HealthProbe \<Rightarrow> True
      | BridgeSearch q n \<Rightarrow> True
      | ProviderSearch k' q n \<Rightarrow> k' = k
      | ProviderChannels k' ids \<Rightarrow> k' = k
      | ProviderPlaylistItems k' p n \<Rightarrow> k' = k
      | ProviderVideos k' ids \<Rightarrow> k' = k)"

text \<open>
  What the answer to a call amounts to. \<open>callError\<close> is the axios error the provider's
  answer makes \<^verbatim>\<open>axios.get\<close> throw, if any. \<open>callFailure\<close> is the failure the answer makes
  of the \<^verbatim>\<open>try\<close> block around the call: for a provider call \<^verbatim>\<open>handleError\<close> of the axios
  error, or what \<^verbatim>\<open>validateResponse(response, ['items'])\<close> throws on the body; for a call
  of the search service \<^verbatim>\<open>handleError\<close> of the error thrown. \<open>quotaAnswer\<close>: the provider
  answers the call with its quota signal, carrying the message \<open>msg\<close>. \<open>noSuchChannel\<close>: the
  provider answers a channel request with a well-formed response without items.
\<close>

definition responseError :: "AxiosError + 'i api_body \<Rightarrow> AxiosError option" where
  "responseError r = (case r of Inl a \<Rightarrow> Some a | Inr body \<Rightarrow> None)"

definition responseFailure :: "AxiosError + 'i api_body \<Rightarrow> APIError option" where
  "responseFailure r =
     (case r of
        Inl a \<Rightarrow> Some (handleError (ThrownAxios a))
      | Inr body \<Rightarrow>
          (case validateResponse body [''items''] of Inl e \<Rightarrow> Some e | Inr u \<Rightarrow> None))"

definition callError :: "env \<Rightarrow> outbound \<Rightarrow> AxiosError option" where
  "callError w call =
     (case call of
        HealthProbe \<Rightarrow> None
      | BridgeSearch q n \<Rightarrow> None
      | ProviderSearch k q n \<Rightarrow> responseError (api_search w k q n)
      | ProviderChannels k ids \<Rightarrow> responseError (api_channels w k ids)
      | ProviderPlaylistItems k p n \<Rightarrow> responseError (api_playlistItems w k p n)
      | ProviderVideos k ids \<Rightarrow> responseError (api_videos w k ids))"

definition callFailure :: "env \<Rightarrow> outbound \<Rightarrow> APIError option" where
  "callFailure w call =
     (case call of
        HealthProbe \<Rightarrow> None
      | BridgeSearch q n \<Rightarrow>
          (case bridge_search w q n of
             Inl msg \<Rightarrow> Some (handleError (ThrownError msg))
           | Inr hits \<Rightarrow> None)
      | ProviderSearch k q n \<Rightarrow> responseFailure (api_search w k q n)
      | ProviderChannels k ids \<Rightarrow> responseFailure (api_channels w k ids)
      | ProviderPlaylistItems k p n \<Rightarrow> responseFailure (api_playlistItems w k p n)
      | ProviderVideos k ids \<Rightarrow> responseFailure (api_videos w k ids))"

definition quotaAnswer :: "env \<Rightarrow> outbound \<Rightarrow> string \<Rightarrow> bool" where
  "quotaAnswer w call msg =
     (case callError w call of None \<Rightarrow> False | Some a \<Rightarrow> quotaSignal a msg)"

definition noSuchChannel :: "env \<Rightarrow> outbound \<Rightarrow> bool" where
  "noSuchChannel w call =
     (case call of
        ProviderChannels k ids \<Rightarrow>
          (case api_channels w k ids of
             Inl a \<Rightarrow> False
           | Inr body \<Rightarrow> validateResponse body [''items''] = Inr () \<and> itemsOf body = [])
      | _ \<Rightarrow> False)"

text \<open>The three failures the client makes itself.\<close>

definition channelNotFoundError :: APIError where
  "channelNotFoundError =
     \<lparr>code = 404, message = ''Channel not found'',
      userMessage = ''The channel you requested could not be found'', retryable = False\<rparr>"

definition blankQueryError :: APIError where
  "blankQueryError =
     \<lparr>code = 400, message = ''Search query cannot be empty'',
      userMessage = ''Please enter a channel name to search'', retryable = False\<rparr>"

definition blankChannelIdError :: APIError where
  "blankChannelIdError =
     \<lparr>code = 400, message = ''Channel ID cannot be empty'',
      userMessage = ''Please provide a valid channel ID'', retryable = False\<rparr>"

text \<open>
  A list of calls none of which was answered with a failure; a list of calls that ends
  with the call whose answer is the failure \<open>e\<close>, all calls before it answered without
  failure; and one that ends with a channel request answered without items, which
  \<^verbatim>\<open>getChannelInfo\<close> turns into the failure 404.
\<close>

definition cleanCalls :: "env \<Rightarrow> outbound list \<Rightarrow> bool" where
  "cleanCalls w tr = list_all (\<lambda>x. callFailure w x = None) tr"

definition failsAt :: "env \<Rightarrow> outbound list \<Rightarrow> APIError \<Rightarrow> bool" where
  "failsAt w tr e = (tr \<noteq> [] \<and> cleanCalls w (butlast tr) \<and> callFailure w (last tr) = Some e)"

definition notFoundAt :: "env \<Rightarrow> outbound list \<Rightarrow> APIError \<Rightarrow> bool" where
  "notFoundAt w tr e =
     (tr \<noteq> [] \<and> cleanCalls w tr \<and> noSuchChannel w (last tr) \<and> e = channelNotFoundError)"

text \<open>
  \<open>sameConfig\<close>: two client states agree on everything but the cache and the log.
  \<open>singleKey\<close>: a run from the state \<open>c\<close> has left the configuration as it was, has only
  added calls to the log, and every call it added carries the key of \<open>c\<close>. \<open>run\<close>: such a
  run has moreover stopped at the first call answered with a failure and has returned
  that failure (with \<open>lookup\<close>, possibly the failure 404 of a channel lookup); when it
  has returned a value, no call of it was answered with a failure.
\<close>

definition sameConfig :: "YouTubeAPIClient \<Rightarrow> YouTubeAPIClient \<Rightarrow> bool" where
  "sameConfig c c' =
     (apiKey c' = apiKey c \<and> maxResults c' = maxResults c
      \<and> videoTimeWindowDays c' = videoTimeWindowDays c
      \<and> searchService c' = searchService c \<and> useSearchService c' = useSearchService c)"

definition singleKey :: "YouTubeAPIClient \<Rightarrow> 'r \<times> YouTubeAPIClient \<Rightarrow> bool" where
  "singleKey c rc =
     (calls (snd rc) = calls c @ newCalls c (snd rc)
      \<and> sameConfig c (snd rc)
      \<and> list_all (usesKey (apiKey c)) (newCalls c (snd rc)))"

definition run ::
  "bool \<Rightarrow> env \<Rightarrow> YouTubeAPIClient \<Rightarrow> (APIError + 'a) \<times> YouTubeAPIClient \<Rightarrow> bool" where
  "run lookup w c rc =
     (singleKey c rc
      \<and> (case fst rc of
           Inl e \<Rightarrow> failsAt w (newCalls c (snd rc)) e
                    \<or> (lookup \<and> notFoundAt w (newCalls c (snd rc)) e)
         | Inr v \<Rightarrow> cleanCalls w (newCalls c (snd rc))))"

text \<open>
  \<open>quotaStops\<close>: if a call the run has made was answered with the quota signal, the run
  has returned the quota failure with the provider's message, that call is the last of
  the log, and it occurs once among the calls of the run. \<open>surfaces\<close>: the failure \<open>e\<close> is
  that of the last of the calls \<open>tr\<close> (with \<open>lookup\<close>, possibly the failure 404 for a last
  call answered without items).
\<close>

definition quotaStops ::
  "env \<Rightarrow> YouTubeAPIClient \<Rightarrow> (APIError + 'a) \<times> YouTubeAPIClient \<Rightarrow> outbound \<Rightarrow> string \<Rightarrow> bool" where
  "quotaStops w c rc x msg =
     (x \<in> set (newCalls c (snd rc)) \<and> quotaAnswer w x msg \<longrightarrow>
        fst rc = Inl (quotaExceededError msg)
      \<and> last (calls (snd rc)) = x
      \<and> count_list (newCalls c (snd rc)) x = 1)"

definition surfaces :: "env \<Rightarrow> bool \<Rightarrow> outbound list \<Rightarrow> APIError \<Rightarrow> bool" where
  "surfaces w lookup tr e =
     (tr \<noteq> []
      \<and> (case callFailure w (last tr) of
           Some e' \<Rightarrow> e = e'
         | None \<Rightarrow> lookup \<and> noSuchChannel w (last tr) \<and> e = channelNotFoundError))"

text \<open>
  \<open>reachesNative\<close>: the search gets past the validation and the cache, and the search
  service is not used, or is not healthy, or its branch fails. \<open>afterBridgeAttempt\<close>: the
  client state when the validation, the cache lookup and the attempt at the search
  service, as far as \<^verbatim>\<open>searchChannels\<close> makes them, are over.
\<close>

definition reachesNative :: "env \<Rightarrow> string \<Rightarrow> nat \<Rightarrow> YouTubeAPIClient \<Rightarrow> bool" where
  "reachesNative w query now c =
     (searchMisses query now c
      \<and> (bridgeEnabled c \<and> bridge_health w = Some True \<longrightarrow>
           isl (fst (searchChannelsViaService w query (searchCacheKey query) now
                       (afterProbe query now c)))))"

definition afterBridgeAttempt :: "env \<Rightarrow> string \<Rightarrow> nat \<Rightarrow> YouTubeAPIClient \<Rightarrow> YouTubeAPIClient" where
  "afterBridgeAttempt w query now c =
     (if length (trim query) = 0 then c
      else
        (case getVideos (searchCacheKey query) now (cache c) of
           (Some cachedChannels, cache1) \<Rightarrow> c\<lparr>cache := cache1\<rparr>
         | (None, cache1) \<Rightarrow>
             (let c0 = c\<lparr>cache := cache1\<rparr>
              in if searchService c0 \<noteq> None \<and> useSearchService c0
                 then
                   (case isHealthy w c0 of
                      (True, c1) \<Rightarrow>
                        snd (searchChannelsViaService w query (searchCacheKey query) now c1)
                    | (False, c1) \<Rightarrow> c1)
                 else c0)))"

section \<open>Example worlds\<close>

text \<open>Concrete items, providers and clients, for the examples that follow the theorems.\<close>

definition hit :: "string \<Rightarrow> real \<Rightarrow> SearchResult" where
  "hit vid conf = \<lparr>sr_id = '''', sr_title = '''', sr_thumbnailUrl = '''', sr_videoId = vid,
                   sr_videoTitle = '''', confidence = conf\<rparr>"

definition thumbs :: Thumbnails where
  "thumbs = \<lparr>thumb_default = ''d.png'', thumb_medium = None, thumb_high = None\<rparr>"

definition channelItem :: "string \<Rightarrow> YouTubeChannelItem" where
  "channelItem cid = \<lparr>ci_id = cid, ci_title = cid, ci_thumbnails = thumbs,
                       ci_subscriberCount = Some 1, ci_uploads = ''UU'' @ cid\<rparr>"

definition videoItem :: "string \<Rightarrow> string \<Rightarrow> int \<Rightarrow> YouTubeVideoItem" where
  "videoItem vid cid t = \<lparr>vi_id = vid, vi_publishedAt = Some t, vi_channelId = cid, vi_title = vid,
     vi_description = '''', vi_thumbnails = thumbs, vi_channelTitle = cid, vi_duration = ''PT1M''\<rparr>"

definition networkError :: AxiosError where
  "networkError = \<lparr>ae_message = ''Network Error'', ae_response = None\<rparr>"

definition quotaError :: AxiosError where
  "quotaError =
     \<lparr>ae_message = ''Request failed with status code 403'',
      ae_response = Some \<lparr>ar_status = 403,
        dataErrorMessage = Some ''The request cannot be completed because you have exceeded your quota.''\<rparr>\<rparr>"

definition statusError :: "int \<Rightarrow> AxiosError" where
  "statusError n =
     \<lparr>ae_message = ''Request failed'',
      ae_response = Some \<lparr>ar_status = n, dataErrorMessage = None\<rparr>\<rparr>"

definition channelsBody :: "string list \<Rightarrow> YouTubeChannelItem api_body" where
  "channelsBody ids = Body [''kind'', ''etag''] (ItemsArray (map channelItem ids))"

definition nativeHits :: "YouTubeChannelSearchItem api_body" where
  "nativeHits = Body [''kind'', ''etag''] (ItemsArray [\<lparr>si_channelId = ''CB''\<rparr>, \<lparr>si_channelId = ''CA''\<rparr>])"

definition playlistPage :: "YouTubePlaylistItem list" where
  "playlistPage =
     [\<lparr>pi_publishedAt = Some 1000, pi_videoId = ''A''\<rparr>,
      \<lparr>pi_publishedAt = Some 999, pi_videoId = ''B''\<rparr>]"

text \<open>
  A world given by the answer of the health probe, of the search service and of the
  provider's search; the other endpoints answer with fixed items.
\<close>

definition demoEnv ::
  "bool option \<Rightarrow> (string + SearchResult list)
     \<Rightarrow> (AxiosError + YouTubeChannelSearchItem api_body) \<Rightarrow> env" where
  "demoEnv health bridge native =
     \<lparr>bridge_health = health,
      bridge_search = (\<lambda>q n. bridge),
      api_search = (\<lambda>k q n. native),
      api_channels = (\<lambda>k ids. Inr (if ids = ''UCx'' then channelsBody [''UCx'']
                                      else channelsBody [''CB'', ''CA''])),
      api_playlistItems = (\<lambda>k p n. Inr (Body [''kind'', ''etag''] (ItemsArray playlistPage))),
      api_videos = (\<lambda>k ids. Inr (Body [''kind'', ''etag'']
                      (ItemsArray (if ids = ''A'' then [videoItem ''A'' ''CA'' 1000]
                                   else [videoItem ''A'' ''CA'' 1000, videoItem ''B'' ''CB'' 999])))),
      dateMinusDays = (\<lambda>now days. int now - int days * 86400000)\<rparr>"

definition quotaEnv :: env where
  "quotaEnv =
     \<lparr>bridge_health = None,
      bridge_search = (\<lambda>q n. Inl ''Failed to fetch''),
      api_search = (\<lambda>k q n. if k = ''K1'' then Inl quotaError else Inr (Body [''kind''] (ItemsArray []))),
      api_channels = (\<lambda>k ids. if k = ''K1'' then Inl quotaError else Inr (channelsBody [ids])),
      api_playlistItems = (\<lambda>k p n. if k = ''K1'' then Inl quotaError else Inr (Body [''kind''] (ItemsArray []))),
      api_videos = (\<lambda>k ids. if k = ''K1'' then Inl quotaError else Inr (Body [''kind''] (ItemsArray []))),
      dateMinusDays = (\<lambda>now days. int now - int days * 86400000)\<rparr>"

definition malformedEnv :: env where
  "malformedEnv =
     \<lparr>bridge_health = None,
      bridge_search = (\<lambda>q n. Inl ''Failed to fetch''),
      api_search = (\<lambda>k q n. Inr (Body [''kind'', ''etag''] ItemsMissing)),
      api_channels = (\<lambda>k ids. Inr (Body [''kind'', ''etag''] ItemsMissing)),
      api_playlistItems = (\<lambda>k p n. Inr (Body [''kind'', ''etag''] ItemsMissing)),
      api_videos = (\<lambda>k ids. Inr (Body [''kind'', ''etag''] ItemsMissing)),
      dateMinusDays = (\<lambda>now days. int now - int days * 86400000)\<rparr>"

definition emptyItemsEnv :: env where
  "emptyItemsEnv =
     \<lparr>bridge_health = None,
      bridge_search = (\<lambda>q n. Inl ''Failed to fetch''),
      api_search = (\<lambda>k q n. Inr (Body [''kind'', ''etag''] (ItemsArray []))),
      api_channels = (\<lambda>k ids. Inr (Body [''kind'', ''etag''] (ItemsArray []))),
      api_playlistItems = (\<lambda>k p n. Inr (Body [''kind'', ''etag''] (ItemsArray []))),
      api_videos = (\<lambda>k ids. Inr (Body [''kind'', ''etag''] (ItemsArray []))),
      dateMinusDays = (\<lambda>now days. int now - int days * 86400000)\<rparr>"

definition plainConfig :: "string \<Rightarrow> YouTubeAPIClientConfig" where
  "plainConfig k =
     \<lparr>cfg_apiKey = Some k, cfg_cache = None, cfg_maxResults = None,
      cfg_videoTimeWindowDays = None, cfg_searchService = None, cfg_useSearchService = None\<rparr>"

definition plainClient :: "string \<Rightarrow> YouTubeAPIClient" where
  "plainClient k =
     \<lparr>apiKey = k, cache = APICache_new None, maxResults = 50, videoTimeWindowDays = 30,
      searchService = None, useSearchService = True, calls = []\<rparr>"

definition bridgeClient :: YouTubeAPIClient where
  "bridgeClient =
     \<lparr>apiKey = ''K1'', cache = APICache_new None, maxResults = 50, videoTimeWindowDays = 30,
      searchService = Some \<lparr>baseUrl = ''http://localhost:5000'', timeout = None\<rparr>,
      useSearchService = True, calls = []\<rparr>"

text \<open>
  The world of \<open>quotaEnv\<close> with a healthy search service that finds one video; a client
  whose cache holds the channel UCx; an answer of the provider's search without items;
  the message of the quota signal and three failures, for the examples.
\<close>

definition bridgeQuotaEnv :: env where
  "bridgeQuotaEnv = quotaEnv\<lparr>bridge_health := Some True, bridge_search := (\<lambda>q n. Inr [hit ''A'' 0.9])\<rparr>"

definition cachedClient :: "string \<Rightarrow> YouTubeAPIClient" where
  "cachedClient k =
     (plainClient k)\<lparr>cache := setChannel ''UCx'' (mapChannelItem (channelItem ''UCx'')) None 0
                                 (APICache_new None)\<rparr>"

definition quotaMessage :: string where
  "quotaMessage = ''The request cannot be completed because you have exceeded your quota.''"

definition emptySearchBody :: "YouTubeChannelSearchItem api_body" where
  "emptySearchBody = Body [''kind'', ''etag''] (ItemsArray [])"

definition tooManyRequests :: APIError where
  "tooManyRequests =
     \<lparr>code = 429, message = ''Request failed'',
      userMessage = ''Too many requests. Please wait a moment and try again.'', retryable = True\<rparr>"

definition missingItems :: APIError where
  "missingItems =
     \<lparr>code = 500, message = ''Missing required field: items'',
      userMessage = ''Received an invalid response from YouTube'', retryable = True\<rparr>"

definition connectionFailure :: APIError where
  "connectionFailure =
     \<lparr>code = 0, message = ''Network Error'',
      userMessage = ''Unable to connect to YouTube. Please check your internet connection.'',
      retryable = True\<rparr>"

section \<open>Facts about the cache\<close>

subsection \<open>Facts about the association lists\<close>

lemma alist_delete_absent:
  "map_of al k = None \<Longrightarrow> AList.delete k al = al"
  by (induction al) (auto split: if_splits)

lemma alist_length_delete_present:
  "distinct (map fst al) \<Longrightarrow> map_of al k = Some v \<Longrightarrow>
   Suc (length (AList.delete k al)) = length al"
proof (induction al)
  case Nil
  then show ?case by simp
next
  case (Cons p ps)
  show ?case
  proof (cases "fst p = k")
    case True
    with Cons.prems have "map_of ps k = None"
      by (cases p) (auto simp: map_of_eq_None_iff)
    then show ?thesis using True by (simp add: alist_delete_absent)
  next
    case False
    with Cons show ?thesis by (cases p) auto
  qed
qed

lemma cache_wf_new: "cache_wf (APICache_new d)"
  by (simp add: cache_wf_def APICache_new_def)

lemma cache_wf_setChannel: "cache_wf c \<Longrightarrow> cache_wf (setChannel k v d now c)"
  by (simp add: cache_wf_def setChannel_def Let_def distinct_update)

lemma cache_wf_setVideos: "cache_wf c \<Longrightarrow> cache_wf (setVideos k v d now c)"
  by (simp add: cache_wf_def setVideos_def Let_def distinct_update)

lemma cache_wf_getChannel: "cache_wf c \<Longrightarrow> cache_wf (snd (getChannel k now c))"
  by (auto simp: cache_wf_def getChannel_def distinct_delete split: option.splits)

lemma cache_wf_getVideos: "cache_wf c \<Longrightarrow> cache_wf (snd (getVideos k now c))"
  by (auto simp: cache_wf_def getVideos_def distinct_delete split: option.splits)

lemma getVideos_fresh:
  assumes "now < t0 + ttl"
  shows "getVideos k now (setVideos k v (Some ttl) t0 c) = (Some v, setVideos k v (Some ttl) t0 c)"
  using assms by (simp add: getVideos_def setVideos_def update_conv')

lemma getChannel_fresh:
  assumes "now < t0 + ttl"
  shows "getChannel k now (setChannel k v (Some ttl) t0 c) = (Some v, setChannel k v (Some ttl) t0 c)"
  using assms by (simp add: getChannel_def setChannel_def update_conv')

lemma getVideos_expired:
  assumes "t0 + ttl \<le> now"
  shows "getVideos k now (setVideos k v (Some ttl) t0 c)
         = (None, (setVideos k v (Some ttl) t0 c)
                    \<lparr>videoCache := AList.delete k (videoCache (setVideos k v (Some ttl) t0 c))\<rparr>)"
  using assms by (simp add: getVideos_def setVideos_def update_conv')

lemma getChannel_expired:
  assumes "t0 + ttl \<le> now"
  shows "getChannel k now (setChannel k v (Some ttl) t0 c)
         = (None, (setChannel k v (Some ttl) t0 c)
                    \<lparr>channelCache := AList.delete k (channelCache (setChannel k v (Some ttl) t0 c))\<rparr>)"
  using assms by (simp add: getChannel_def setChannel_def update_conv')

lemma videoCache_size_after_set:
  "cache_wf c \<Longrightarrow>
   Suc (length (AList.delete k (videoCache (setVideos k v d t0 c))))
     = getVideoCacheSize (setVideos k v d t0 c)"
  unfolding getVideoCacheSize_def
  by (rule alist_length_delete_present[where v = "\<lparr>data = v, timestamp = t0,
        expiresAt = t0 + (case d of None \<Rightarrow> defaultCacheDuration c | Some d \<Rightarrow> d)\<rparr>"])
     (simp_all add: cache_wf_def setVideos_def Let_def distinct_update update_conv')

lemma channelCache_size_after_set:
  "cache_wf c \<Longrightarrow>
   Suc (length (AList.delete k (channelCache (setChannel k v d t0 c))))
     = getChannelCacheSize (setChannel k v d t0 c)"
  unfolding getChannelCacheSize_def
  by (rule alist_length_delete_present[where v = "\<lparr>data = v, timestamp = t0,
        expiresAt = t0 + (case d of None \<Rightarrow> defaultCacheDuration c | Some d \<Rightarrow> d)\<rparr>"])
     (simp_all add: cache_wf_def setChannel_def Let_def distinct_update update_conv')

section \<open>Facts about the key manager\<close>

lemma availableStep_fst: "fst (availableStep now k sts) = keyAvailable now sts k"
  by (auto simp: availableStep_def keyAvailable_def statusAvailable_def statusAfter_def Let_def
      split: option.splits)

lemma availableStep_snd:
  "map_of (snd (availableStep now k sts)) = (\<lambda>k'. if k' = k then map_option (statusAfter now) (map_of sts k) else map_of sts k')"
  by (auto simp: availableStep_def statusAfter_def Let_def update_conv' fun_eq_iff
      split: option.splits)

lemma statusAfter_idem: "statusAfter now (statusAfter now s) = statusAfter now s"
  by (simp add: statusAfter_def truthyTime_def)

lemma statusAvailable_after: "statusAvailable now (statusAfter now s) = statusAvailable now s"
  by (auto simp: statusAvailable_def statusAfter_def truthyTime_def)

lemma keyAvailable_step:
  "keyAvailable now (snd (availableStep now k sts)) k' = keyAvailable now sts k'"
  by (auto simp: keyAvailable_def availableStep_snd statusAvailable_after split: option.splits)

lemma availableFilter_fst:
  "fst (availableFilter now ks sts) = filter (keyAvailable now sts) ks"
proof (induction ks arbitrary: sts)
  case Nil
  then show ?case by simp
next
  case (Cons k ks)
  have "fst (availableFilter now ks (snd (availableStep now k sts)))
        = filter (keyAvailable now sts) ks"
    by (simp add: Cons.IH keyAvailable_step cong: filter_cong)
  then show ?case
    using availableStep_fst[of now k sts]
    by (auto split: prod.splits)
qed

lemma availableFilter_Cons_snd:
  "snd (availableFilter now (k # ks) sts) = snd (availableFilter now ks (snd (availableStep now k sts)))"
  by (simp split: prod.splits)

lemma availableFilter_snd:
  "map_of (snd (availableFilter now ks sts)) k
   = (if k \<in> set ks then map_option (statusAfter now) (map_of sts k) else map_of sts k)"
proof (induction ks arbitrary: sts)
  case Nil
  then show ?case by simp
next
  case (Cons a ks)
  show ?case
    unfolding availableFilter_Cons_snd Cons.IH availableStep_snd
    by (auto simp: statusAfter_idem option.map_comp comp_def)
qed

lemma getAvailableKeys_eq:
  "getAvailableKeys now m
   = (filter (keyAvailable now (keyStatuses m)) (apiKeys m),
      m\<lparr>keyStatuses := snd (availableFilter now (apiKeys m) (keyStatuses m))\<rparr>)"
  by (simp add: getAvailableKeys_def case_prod_beta availableFilter_fst)

lemma getAvailableKeys_fst:
  "fst (getAvailableKeys now m) = filter (keyAvailable now (keyStatuses m)) (apiKeys m)"
  by (simp add: getAvailableKeys_eq)

lemma getAvailableKeys_apiKeys [simp]:
  "apiKeys (snd (getAvailableKeys now m)) = apiKeys m"
  by (simp add: getAvailableKeys_eq)

lemma getAvailableKeys_index [simp]:
  "currentKeyIndex (snd (getAvailableKeys now m)) = currentKeyIndex m"
  by (simp add: getAvailableKeys_eq)

lemma getAvailableKeys_status:
  "map_of (keyStatuses (snd (getAvailableKeys now m))) k
   = (if k \<in> set (apiKeys m) then map_option (statusAfter now) (map_of (keyStatuses m) k)
      else map_of (keyStatuses m) k)"
  by (simp add: getAvailableKeys_eq availableFilter_snd)

lemma statusAfter_quotaExhausted [simp]: "quotaExhausted (statusAfter now s) = quotaExhausted s"
  by (simp add: statusAfter_def)

lemma keyExhausted_getAvailableKeys [simp]:
  "keyExhausted (snd (getAvailableKeys now m)) k = keyExhausted m k"
  by (auto simp: keyExhausted_def getAvailableKeys_status split: option.splits)

lemma exhausted_not_available:
  "keyExhausted m k \<Longrightarrow> k \<notin> set (fst (getAvailableKeys now m))"
  by (auto simp: getAvailableKeys_fst keyExhausted_def keyAvailable_def statusAvailable_def
      split: option.splits)

lemma nth_opt_eq: "nth_opt xs i = (if i < length xs then Some (xs ! i) else None)"
  by (induction xs i rule: nth_opt.induct) auto

lemma findIndex_Some:
  "findIndex P xs = Some i \<Longrightarrow> i < length xs \<and> P (xs ! i) \<and> (\<forall>j<i. \<not> P (xs ! j))"
proof (induction xs arbitrary: i)
  case Nil
  then show ?case by simp
next
  case (Cons x xs)
  show ?case
  proof (cases "P x")
    case True
    with Cons.prems show ?thesis by simp
  next
    case False
    with Cons.prems obtain i' where i': "findIndex P xs = Some i'" "i = Suc i'"
      by (auto split: option.splits)
    from Cons.IH[OF i'(1)] False i'(2) show ?thesis
      by (auto simp: nth_Cons split: nat.splits)
  qed
qed

lemma findIndex_None: "findIndex P xs = None \<longleftrightarrow> (\<forall>x\<in>set xs. \<not> P x)"
  by (induction xs) (auto split: option.splits)

lemma getCurrentKey_snd_apiKeys [simp]: "apiKeys (snd (getCurrentKey now m)) = apiKeys m"
  by (simp add: getCurrentKey_def Let_def case_prod_beta split: option.splits)

lemma getCurrentKey_statuses [simp]:
  "keyStatuses (snd (getCurrentKey now m)) = keyStatuses (snd (getAvailableKeys now m))"
  by (simp add: getCurrentKey_def Let_def case_prod_beta split: option.splits)

lemma available_subset: "set (fst (getAvailableKeys now m)) \<subseteq> set (apiKeys m)"
  by (auto simp: getAvailableKeys_fst)

lemma getCurrentKey_eq:
  "getCurrentKey now m =
     (let av = fst (getAvailableKeys now m); m1 = snd (getAvailableKeys now m) in
      if av = [] then (None, m1)
      else if includesKey av (nth_opt (apiKeys m) (currentKeyIndex m))
      then (nth_opt (apiKeys m) (currentKeyIndex m), m1)
      else (case findIndex (\<lambda>k. k \<in> set av) (apiKeys m) of
              Some i \<Rightarrow> (nth_opt (apiKeys m) i, m1\<lparr>currentKeyIndex := i\<rparr>)
            | None \<Rightarrow> (nth_opt (apiKeys m) (currentKeyIndex m), m1)))"
  by (simp add: getCurrentKey_def Let_def case_prod_beta split: option.splits)

lemma getCurrentKey_Some:
  assumes "fst (getCurrentKey now m) = Some k"
  shows "k \<in> set (fst (getAvailableKeys now m))
         \<and> nth_opt (apiKeys m) (currentKeyIndex (snd (getCurrentKey now m))) = Some k"
proof -
  let ?av = "fst (getAvailableKeys now m)"
  from assms have ne: "?av \<noteq> []"
    by (auto simp: getCurrentKey_eq Let_def)
  show ?thesis
  proof (cases "includesKey ?av (nth_opt (apiKeys m) (currentKeyIndex m))")
    case True
    with assms ne show ?thesis
      by (auto simp: getCurrentKey_eq Let_def includesKey_def split: option.splits)
  next
    case False
    from ne obtain x where x: "x \<in> set ?av" by (cases ?av) auto
    with available_subset[of now m] have "x \<in> set (apiKeys m)" by auto
    with x have "findIndex (\<lambda>k. k \<in> set ?av) (apiKeys m) \<noteq> None"
      by (auto simp: findIndex_None)
    then obtain i where i: "findIndex (\<lambda>k. k \<in> set ?av) (apiKeys m) = Some i" by auto
    from findIndex_Some[OF i] have "i < length (apiKeys m)" "apiKeys m ! i \<in> set ?av" by auto
    with assms ne False i show ?thesis
      by (auto simp: getCurrentKey_eq Let_def nth_opt_eq)
  qed
qed

lemma getCurrentKey_None:
  "fst (getCurrentKey now m) = None \<Longrightarrow> fst (getAvailableKeys now m) = []"
proof (rule ccontr)
  let ?av = "fst (getAvailableKeys now m)"
  assume r: "fst (getCurrentKey now m) = None" and ne: "?av \<noteq> []"
  from ne obtain x where x: "x \<in> set ?av" by (cases ?av) auto
  with available_subset[of now m] have "x \<in> set (apiKeys m)" by auto
  with x have "findIndex (\<lambda>k. k \<in> set ?av) (apiKeys m) \<noteq> None"
    by (auto simp: findIndex_None)
  then obtain i where i: "findIndex (\<lambda>k. k \<in> set ?av) (apiKeys m) = Some i" by auto
  from findIndex_Some[OF i] have "i < length (apiKeys m)" by auto
  with r ne i show False
    by (auto simp: getCurrentKey_eq Let_def nth_opt_eq includesKey_def split: if_splits option.splits)
qed

lemma rotateLoop_Some:
  "rotateLoop av keys j a = Some i \<Longrightarrow> includesKey av (nth_opt keys i)"
proof (induction av keys j a rule: rotateLoop.induct)
  case (1 av keys j a)
  then show ?case
    by (subst (asm) (2) rotateLoop.simps) (auto split: if_splits)
qed

lemma rotateKey_eq:
  "rotateKey now m =
     (let av = fst (getAvailableKeys now m); m1 = snd (getAvailableKeys now m) in
      if av = [] then (None, m1)
      else (case rotateLoop av (apiKeys m) ((currentKeyIndex m + 1) mod length (apiKeys m)) 0 of
              Some i \<Rightarrow> (nth_opt (apiKeys m) i, m1\<lparr>currentKeyIndex := i\<rparr>)
            | None \<Rightarrow> (None, m1)))"
  by (simp add: rotateKey_def Let_def case_prod_beta split: option.splits)

lemma rotateKey_Some:
  "fst (rotateKey now m) = Some k \<Longrightarrow> k \<in> set (fst (getAvailableKeys now m))"
  by (auto simp: rotateKey_eq Let_def includesKey_def split: if_splits option.splits
      dest!: rotateLoop_Some)

lemma rotateKey_statuses [simp]:
  "keyStatuses (snd (rotateKey now m)) = keyStatuses (snd (getAvailableKeys now m))"
  by (simp add: rotateKey_eq Let_def split: option.splits)

lemma rotateKey_apiKeys [simp]: "apiKeys (snd (rotateKey now m)) = apiKeys m"
  by (simp add: rotateKey_eq Let_def split: option.splits)

lemma keyExhausted_reportError:
  "keyExhausted m k \<Longrightarrow> keyExhausted (reportError e q now mid m) k"
  by (auto simp: keyExhausted_def reportError_def Let_def update_conv' split: option.splits)

lemma keyExhausted_reportSuccess:
  "keyExhausted (reportSuccess m) k = keyExhausted m k"
  by (auto simp: keyExhausted_def reportSuccess_def update_conv' split: option.splits)

lemma keyExhausted_getCurrentKey [simp]:
  "keyExhausted (snd (getCurrentKey now m)) k = keyExhausted m k"
  using keyExhausted_getAvailableKeys[of now m k]
  by (simp add: keyExhausted_def)

lemma keyExhausted_rotateKey [simp]:
  "keyExhausted (snd (rotateKey now m)) k = keyExhausted m k"
  using keyExhausted_getAvailableKeys[of now m k]
  by (simp add: keyExhausted_def)

lemma getCurrentKey_not_exhausted:
  "keyExhausted m k \<Longrightarrow> fst (getCurrentKey now m) \<noteq> Some k"
  using getCurrentKey_Some exhausted_not_available by blast

lemma rotateKey_not_exhausted:
  "keyExhausted m k \<Longrightarrow> fst (rotateKey now m) \<noteq> Some k"
  using rotateKey_Some exhausted_not_available by blast

lemma runCall_exhausted:
  "keyExhausted m k \<Longrightarrow> fst (runCall c m) \<noteq> Some k \<and> keyExhausted (snd (runCall c m)) k"
  by (cases c)
     (simp_all add: getCurrentKey_not_exhausted rotateKey_not_exhausted keyExhausted_reportError
        keyExhausted_reportSuccess getAvailableKeyCount_def hasAvailableKeys_def case_prod_beta)

lemma runCalls_exhausted:
  "keyExhausted m k \<Longrightarrow>
     Some k \<notin> set (fst (runCalls cs m)) \<and> keyExhausted (snd (runCalls cs m)) k"
proof (induction cs arbitrary: m)
  case Nil
  then show ?case by simp
next
  case (Cons c cs)
  from runCall_exhausted[OF Cons.prems, of c]
  have a: "fst (runCall c m) \<noteq> Some k" and b: "keyExhausted (snd (runCall c m)) k" by auto
  from Cons.IH[OF b] a show ?case
    by (auto simp: case_prod_beta)
qed

lemma reportError_quota_exhausts:
  assumes "nth_opt (apiKeys m) (currentKeyIndex m) = Some k" and "map_of (keyStatuses m) k \<noteq> None"
  shows "keyExhausted (reportError e True now mid m) k"
  using assms by (auto simp: keyExhausted_def reportError_def Let_def update_conv')

lemma map_of_fold_update:
  "map_of (fold (\<lambda>k sts. AList.update k (f k) sts) ks sts0) k
   = (if k \<in> set ks then Some (f k) else map_of sts0 k)"
  by (induction ks arbitrary: sts0) (auto simp: update_conv')

lemma init_status:
  "map_of (keyStatuses (APIKeyManager_init keys)) k
   = (if k \<in> set keys then Some (initialStatus k) else None)"
  by (simp add: APIKeyManager_init_def map_of_fold_update)

lemma keysSettled_init: "keysSettled (APIKeyManager_init keys)"
  by (simp add: keysSettled_def init_status)
     (simp add: APIKeyManager_init_def initialStatus_def truthyTime_def)

lemma statusAfter_settled:
  "quotaExhausted s \<or> (isActive s \<and> \<not> truthyTime (nextRetryTime s)) \<Longrightarrow> statusAfter now s = s"
  by (auto simp: statusAfter_def)

lemma settled_getAvailableKeys_status:
  assumes "keysSettled m"
  shows "map_of (keyStatuses (snd (getAvailableKeys now m))) k = map_of (keyStatuses m) k"
proof (cases "k \<in> set (apiKeys m)")
  case True
  with assms obtain s where "map_of (keyStatuses m) k = Some s"
    "quotaExhausted s \<or> (isActive s \<and> \<not> truthyTime (nextRetryTime s))"
    by (auto simp: keysSettled_def)
  then show ?thesis using True
    by (simp add: getAvailableKeys_status statusAfter_settled)
next
  case False
  then show ?thesis by (simp add: getAvailableKeys_status)
qed

lemma settled_available_iff:
  assumes "keysSettled m" and "k \<in> set (apiKeys m)"
  shows "keyAvailable now (keyStatuses m) k \<longleftrightarrow> \<not> keyExhausted m k"
proof -
  from assms obtain s where s: "map_of (keyStatuses m) k = Some s"
    "quotaExhausted s \<or> (isActive s \<and> \<not> truthyTime (nextRetryTime s))"
    by (auto simp: keysSettled_def)
  then show ?thesis
    by (auto simp: keyAvailable_def keyExhausted_def statusAvailable_def statusAfter_settled)
qed

lemma keysSettled_getCurrentKey:
  "keysSettled m \<Longrightarrow> keysSettled (snd (getCurrentKey now m))"
  by (simp add: keysSettled_def settled_getAvailableKeys_status[unfolded keysSettled_def])

lemma reportError_apiKeys [simp]: "apiKeys (reportError e q now mid m) = apiKeys m"
  by (simp add: reportError_def Let_def split: option.splits)

lemma keysSettled_reportError_quota:
  "keysSettled m \<Longrightarrow> keysSettled (reportError e True now mid m)"
  unfolding keysSettled_def
  by (auto simp: reportError_def Let_def update_conv' split: option.splits)

lemma quotaStep_apiKeys [simp]: "apiKeys (quotaStep now mid m) = apiKeys m"
  by (simp add: quotaStep_def)

lemma keysSettled_quotaStep: "keysSettled m \<Longrightarrow> keysSettled (quotaStep now mid m)"
  by (simp add: quotaStep_def keysSettled_reportError_quota keysSettled_getCurrentKey)

lemma exhaustedKeys_quotaStep_mono: "exhaustedKeys m \<subseteq> exhaustedKeys (quotaStep now mid m)"
  by (auto simp: exhaustedKeys_def quotaStep_def intro!: keyExhausted_reportError)

lemma exhaustedKeys_subset: "exhaustedKeys m \<subseteq> set (apiKeys m)"
  by (auto simp: exhaustedKeys_def)

lemma quotaStep_progress:
  assumes "keysSettled m"
  shows "exhaustedKeys (quotaStep now mid m) = set (apiKeys m)
         \<or> Suc (card (exhaustedKeys m)) \<le> card (exhaustedKeys (quotaStep now mid m))"
proof (cases "fst (getCurrentKey now m)")
  case None
  then have "fst (getAvailableKeys now m) = []" by (rule getCurrentKey_None)
  then have "\<forall>k \<in> set (apiKeys m). \<not> keyAvailable now (keyStatuses m) k"
    by (auto simp: getAvailableKeys_fst filter_empty_conv)
  with assms have "exhaustedKeys m = set (apiKeys m)"
    by (auto simp: exhaustedKeys_def settled_available_iff)
  with exhaustedKeys_quotaStep_mono[of m now mid] exhaustedKeys_subset[of "quotaStep now mid m"]
  show ?thesis by auto
next
  case (Some k)
  let ?m1 = "snd (getCurrentKey now m)"
  from getCurrentKey_Some[OF Some]
  have av: "k \<in> set (fst (getAvailableKeys now m))"
    and ptr: "nth_opt (apiKeys ?m1) (currentKeyIndex ?m1) = Some k" by auto
  from av have kin: "k \<in> set (apiKeys m)" using available_subset by blast
  from av have notex: "\<not> keyExhausted m k" using exhausted_not_available by blast
  from keysSettled_getCurrentKey[OF assms, of now] kin
  have "map_of (keyStatuses ?m1) k \<noteq> None" by (auto simp: keysSettled_def)
  from reportError_quota_exhausts[OF ptr this]
  have "k \<in> exhaustedKeys (quotaStep now mid m)"
    using kin by (simp add: exhaustedKeys_def quotaStep_def)
  with exhaustedKeys_quotaStep_mono[of m now mid]
  have sub: "insert k (exhaustedKeys m) \<subseteq> exhaustedKeys (quotaStep now mid m)" by auto
  have fin: "finite (exhaustedKeys (quotaStep now mid m))"
    by (rule finite_subset[OF exhaustedKeys_subset]) simp
  have "k \<notin> exhaustedKeys m" using notex by (simp add: exhaustedKeys_def)
  moreover have "finite (exhaustedKeys m)"
    by (rule finite_subset[OF exhaustedKeys_subset]) simp
  ultimately have "card (insert k (exhaustedKeys m)) = Suc (card (exhaustedKeys m))" by simp
  with card_mono[OF fin sub] show ?thesis by simp
qed

lemma quotaFailures_Suc: "quotaFailures (Suc n) now mid m = quotaFailures n now mid (quotaStep now mid m)"
  by simp

lemma quotaFailures_apiKeys [simp]: "apiKeys (quotaFailures n now mid m) = apiKeys m"
  by (induction n arbitrary: m) (simp_all del: quotaFailures.simps(2) add: quotaFailures_Suc)

lemma keysSettled_quotaFailures: "keysSettled m \<Longrightarrow> keysSettled (quotaFailures n now mid m)"
  by (induction n arbitrary: m)
     (simp_all del: quotaFailures.simps(2) add: quotaFailures_Suc keysSettled_quotaStep)

lemma exhaustedKeys_quotaFailures_mono:
  "exhaustedKeys m \<subseteq> exhaustedKeys (quotaFailures n now mid m)"
proof (induction n arbitrary: m)
  case 0
  then show ?case by simp
next
  case (Suc n)
  show ?case
    using exhaustedKeys_quotaStep_mono[of m now mid] Suc[of "quotaStep now mid m"]
    by (simp del: quotaFailures.simps(2) add: quotaFailures_Suc)
qed

lemma quotaFailures_progress:
  assumes "keysSettled m"
  shows "exhaustedKeys (quotaFailures n now mid m) = set (apiKeys m)
         \<or> card (exhaustedKeys m) + n \<le> card (exhaustedKeys (quotaFailures n now mid m))"
  using assms
proof (induction n arbitrary: m)
  case 0
  then show ?case by simp
next
  case (Suc n)
  let ?m' = "quotaStep now mid m"
  have s': "keysSettled ?m'" using Suc.prems by (rule keysSettled_quotaStep)
  from Suc.IH[OF s']
  consider "exhaustedKeys (quotaFailures n now mid ?m') = set (apiKeys m)"
    | "card (exhaustedKeys ?m') + n \<le> card (exhaustedKeys (quotaFailures n now mid ?m'))"
    by auto
  then show ?case
  proof cases
    case 1
    then show ?thesis by (simp del: quotaFailures.simps(2) add: quotaFailures_Suc)
  next
    case 2
    from quotaStep_progress[OF Suc.prems, of now mid]
    show ?thesis
    proof
      assume all: "exhaustedKeys ?m' = set (apiKeys m)"
      from exhaustedKeys_quotaFailures_mono[of ?m' n now mid]
        exhaustedKeys_subset[of "quotaFailures n now mid ?m'"] all
      have "exhaustedKeys (quotaFailures n now mid ?m') = set (apiKeys m)" by auto
      then show ?thesis by (simp del: quotaFailures.simps(2) add: quotaFailures_Suc)
    next
      assume "Suc (card (exhaustedKeys m)) \<le> card (exhaustedKeys ?m')"
      with 2 show ?thesis by (simp del: quotaFailures.simps(2) add: quotaFailures_Suc)
    qed
  qed
qed

lemma quotaFailures_all_exhausted:
  assumes "keysSettled m"
  shows "exhaustedKeys (quotaFailures (length (apiKeys m)) now mid m) = set (apiKeys m)"
proof -
  let ?E = "exhaustedKeys (quotaFailures (length (apiKeys m)) now mid m)"
  have sub: "?E \<subseteq> set (apiKeys m)" using exhaustedKeys_subset[of "quotaFailures (length (apiKeys m)) now mid m"] by simp
  from quotaFailures_progress[OF assms, of "length (apiKeys m)" now mid]
  show ?thesis
  proof
    assume "card (exhaustedKeys m) + length (apiKeys m) \<le> card ?E"
    then have "card (set (apiKeys m)) \<le> card ?E"
      using card_length[of "apiKeys m"] by linarith
    with sub show ?thesis by (simp add: card_seteq)
  qed simp
qed

lemma all_exhausted_none_available:
  assumes "exhaustedKeys m = set (apiKeys m)"
  shows "fst (getAvailableKeys now m) = []" and "fst (getCurrentKey now m) = None"
    and "fst (rotateKey now m) = None"
proof -
  from assms have "\<forall>k \<in> set (apiKeys m). keyExhausted m k" by (auto simp: exhaustedKeys_def)
  then have "\<forall>k \<in> set (apiKeys m). k \<notin> set (fst (getAvailableKeys now m))"
    using exhausted_not_available by blast
  with available_subset[of now m] have "\<forall>x. x \<notin> set (fst (getAvailableKeys now m))" by blast
  then show e: "fst (getAvailableKeys now m) = []"
    by (cases "fst (getAvailableKeys now m)") auto
  then show "fst (getCurrentKey now m) = None" by (simp add: getCurrentKey_eq)
  from e show "fst (rotateKey now m) = None" by (simp add: rotateKey_eq)
qed

lemma resetQuotaStatus_status:
  "map_of (keyStatuses (resetQuotaStatus m)) k = map_option resetStatus (map_of (keyStatuses m) k)"
  by (simp add: resetQuotaStatus_def map_of_map)

lemma resetQuotaStatus_apiKeys [simp]: "apiKeys (resetQuotaStatus m) = apiKeys m"
  by (simp add: resetQuotaStatus_def)

lemma reset_makes_available:
  assumes "keyExhausted m k"
  shows "keyAvailable now (keyStatuses (resetQuotaStatus m)) k"
    and "\<not> keyExhausted (resetQuotaStatus m) k"
  using assms
  by (auto simp: keyExhausted_def keyAvailable_def resetQuotaStatus_status resetStatus_def
      statusAvailable_def statusAfter_def truthyTime_def split: option.splits)

lemma reset_restores_all:
  assumes "exhaustedKeys m = set (apiKeys m)"
  shows "fst (getAvailableKeys now (resetQuotaStatus m)) = apiKeys m"
proof -
  from assms have "\<forall>k \<in> set (apiKeys m). keyExhausted m k" by (auto simp: exhaustedKeys_def)
  then have "\<forall>k \<in> set (apiKeys m). keyAvailable now (keyStatuses (resetQuotaStatus m)) k"
    using reset_makes_available(1) by blast
  then show ?thesis by (simp add: getAvailableKeys_fst)
qed

lemma backoffDelay_ge_base: "0 < n \<Longrightarrow> baseRetryDelay \<le> backoffDelay n"
  by (simp add: backoffDelay_def baseRetryDelay_def maxRetryDelay_def)

lemma backoffDelay_le_max: "backoffDelay n \<le> maxRetryDelay"
  by (simp add: backoffDelay_def)

lemma backoffDelay_mono: "0 < n \<Longrightarrow> n \<le> n' \<Longrightarrow> backoffDelay n \<le> backoffDelay n'"
proof -
  assume "0 < n" "n \<le> n'"
  then have "(2::nat) ^ (n - 1) \<le> 2 ^ (n' - 1)"
    by (intro power_increasing) auto
  then have "baseRetryDelay * 2 ^ (n - 1) \<le> baseRetryDelay * 2 ^ (n' - 1)"
    by simp
  then show ?thesis
    unfolding backoffDelay_def by (rule min.mono) simp
qed

lemma backoffDelay_one: "backoffDelay (Suc 0) = baseRetryDelay"
  by (simp add: backoffDelay_def baseRetryDelay_def maxRetryDelay_def)

lemma reportError_transient_status:
  assumes "nth_opt (apiKeys m) (currentKeyIndex m) = Some k"
    and "map_of (keyStatuses m) k = Some s"
  shows "map_of (keyStatuses (reportError e False now mid m)) k
         = Some (s\<lparr>lastError := Some e, lastErrorTime := Some now,
                    consecutiveErrors := Suc (consecutiveErrors s),
                    nextRetryTime := Some (now + backoffDelay (Suc (consecutiveErrors s))),
                    isActive := False\<rparr>)"
  using assms by (simp add: reportError_def Let_def update_conv')

lemma reportError_index [simp]: "currentKeyIndex (reportError e q now mid m) = currentKeyIndex m"
  by (simp add: reportError_def Let_def split: option.splits)

lemma reportSuccess_index [simp]: "currentKeyIndex (reportSuccess m) = currentKeyIndex m"
  by (simp add: reportSuccess_def split: option.splits)

lemma reportSuccess_apiKeys [simp]: "apiKeys (reportSuccess m) = apiKeys m"
  by (simp add: reportSuccess_def split: option.splits)

lemma reportSuccess_status:
  assumes "nth_opt (apiKeys m) (currentKeyIndex m) = Some k"
    and "map_of (keyStatuses m) k = Some s"
  shows "map_of (keyStatuses (reportSuccess m)) k
         = Some (s\<lparr>consecutiveErrors := 0, lastError := None, lastErrorTime := None,
                    nextRetryTime := None, isActive := True\<rparr>)"
  using assms by (simp add: reportSuccess_def update_conv')

lemma transient_backoff_window:
  assumes ptr: "nth_opt (apiKeys m) (currentKeyIndex m) = Some k"
    and st: "map_of (keyStatuses m) k = Some s"
    and nq: "\<not> quotaExhausted s"
  shows "t < now + backoffDelay (Suc (consecutiveErrors s)) \<Longrightarrow>
           k \<notin> set (fst (getAvailableKeys t (reportError e False now mid m)))"
    and "now + backoffDelay (Suc (consecutiveErrors s)) \<le> t \<Longrightarrow>
           k \<in> set (fst (getAvailableKeys t (reportError e False now mid m)))"
proof -
  have pos: "0 < backoffDelay (Suc (consecutiveErrors s))"
    using backoffDelay_ge_base[of "Suc (consecutiveErrors s)"] by (simp add: baseRetryDelay_def)
  from ptr have kin: "k \<in> set (apiKeys m)"
    by (auto simp: nth_opt_eq split: if_splits)
  note st' = reportError_transient_status[OF ptr st, of e now mid]
  show "t < now + backoffDelay (Suc (consecutiveErrors s)) \<Longrightarrow>
           k \<notin> set (fst (getAvailableKeys t (reportError e False now mid m)))"
    using pos by (simp add: getAvailableKeys_fst keyAvailable_def st' statusAvailable_def truthyTime_def)
  show "now + backoffDelay (Suc (consecutiveErrors s)) \<le> t \<Longrightarrow>
           k \<in> set (fst (getAvailableKeys t (reportError e False now mid m)))"
    using pos nq kin
    by (simp add: getAvailableKeys_fst keyAvailable_def st' statusAvailable_def statusAfter_def
        truthyTime_def)
qed

lemma transientErrors_status:
  assumes "nth_opt (apiKeys m) (currentKeyIndex m) = Some k"
    and "map_of (keyStatuses m) k = Some s"
  shows "\<exists>s'. map_of (keyStatuses (transientErrors (ts @ [t]) mid m)) k = Some s'
           \<and> consecutiveErrors s' = consecutiveErrors s + length ts + 1
           \<and> nextRetryTime s' = Some (t + backoffDelay (consecutiveErrors s + length ts + 1))
           \<and> quotaExhausted s' = quotaExhausted s"
  using assms
proof (induction ts arbitrary: m s)
  case Nil
  then show ?case
    by (simp add: reportError_transient_status)
next
  case (Cons a ts)
  let ?m1 = "reportError ''timeout'' False a mid m"
  let ?s1 = "s\<lparr>lastError := Some ''timeout'', lastErrorTime := Some a,
                    consecutiveErrors := Suc (consecutiveErrors s),
                    nextRetryTime := Some (a + backoffDelay (Suc (consecutiveErrors s))),
                    isActive := False\<rparr>"
  have p1: "nth_opt (apiKeys ?m1) (currentKeyIndex ?m1) = Some k"
    using Cons.prems(1) by simp
  have s1: "map_of (keyStatuses ?m1) k = Some ?s1"
    using reportError_transient_status[OF Cons.prems] by simp
  from Cons.IH[OF p1 s1] show ?case by simp
qed

lemma rotateLoop_found:
  "rotateLoop av keys j a = Some i \<Longrightarrow> j < length keys \<Longrightarrow>
   \<exists>d. a + d < length keys \<and> i = (j + d) mod length keys
       \<and> includesKey av (nth_opt keys i)
       \<and> (\<forall>d'<d. \<not> includesKey av (nth_opt keys ((j + d') mod length keys)))"
proof (induction av keys j a rule: rotateLoop.induct)
  case (1 av keys j a)
  let ?N = "length keys"
  from "1.prems"(1) have lt: "a < ?N"
    by (subst (asm) rotateLoop.simps) (auto split: if_splits)
  show ?case
  proof (cases "includesKey av (nth_opt keys j)")
    case True
    with "1.prems" lt have "i = j"
      by (subst (asm) rotateLoop.simps) simp
    with True lt "1.prems"(2) show ?thesis
      by (intro exI[of _ 0]) simp
  next
    case False
    let ?j' = "(j + 1) mod ?N"
    from "1.prems"(1) lt False have rec: "rotateLoop av keys ?j' (a + 1) = Some i"
      by (subst (asm) rotateLoop.simps) simp
    have j': "?j' < ?N" by (rule mod_less_divisor) (use lt in auto)
    from "1.IH"[OF lt False rec j'] obtain d where d:
      "a + 1 + d < ?N" "i = (?j' + d) mod ?N" "includesKey av (nth_opt keys i)"
      "\<forall>d'<d. \<not> includesKey av (nth_opt keys ((?j' + d') mod ?N))" by blast
    have shift: "(?j' + x) mod ?N = (j + Suc x) mod ?N" for x
      by (simp add: mod_add_left_eq)
    have "\<forall>d'<Suc d. \<not> includesKey av (nth_opt keys ((j + d') mod ?N))"
    proof (intro allI impI)
      fix d' assume "d' < Suc d"
      show "\<not> includesKey av (nth_opt keys ((j + d') mod ?N))"
      proof (cases d')
        case 0
        with False "1.prems"(2) show ?thesis by simp
      next
        case (Suc x)
        with \<open>d' < Suc d\<close> d(4) have "\<not> includesKey av (nth_opt keys ((?j' + x) mod ?N))" by simp
        then show ?thesis unfolding shift Suc .
      qed
    qed
    moreover have "i = (j + Suc d) mod ?N" using d(2) shift[of d] by simp
    moreover have "a + Suc d < ?N" using d(1) by simp
    ultimately show ?thesis using d(3) by blast
  qed
qed

lemma rotateLoop_not_found:
  "rotateLoop av keys j a = None \<Longrightarrow> j < length keys \<Longrightarrow>
   \<forall>d. a + d < length keys \<longrightarrow> \<not> includesKey av (nth_opt keys ((j + d) mod length keys))"
proof (induction av keys j a rule: rotateLoop.induct)
  case (1 av keys j a)
  let ?N = "length keys"
  show ?case
  proof (cases "a < ?N")
    case False
    then show ?thesis by simp
  next
    case lt: True
    from "1.prems"(1) lt have nf: "\<not> includesKey av (nth_opt keys j)"
      by (subst (asm) rotateLoop.simps) (auto split: if_splits)
    let ?j' = "(j + 1) mod ?N"
    from "1.prems"(1) lt nf have rec: "rotateLoop av keys ?j' (a + 1) = None"
      by (subst (asm) rotateLoop.simps) simp
    have j': "?j' < ?N" by (rule mod_less_divisor) (use lt in auto)
    note ih = "1.IH"[OF lt nf rec j']
    have shift: "(?j' + x) mod ?N = (j + Suc x) mod ?N" for x
      by (simp add: mod_add_left_eq)
    show ?thesis
    proof (intro allI impI)
      fix d assume d: "a + d < ?N"
      show "\<not> includesKey av (nth_opt keys ((j + d) mod ?N))"
      proof (cases d)
        case 0
        with nf "1.prems"(2) show ?thesis by simp
      next
        case (Suc x)
        with d ih have "\<not> includesKey av (nth_opt keys ((?j' + x) mod ?N))" by simp
        then show ?thesis unfolding shift Suc .
      qed
    qed
  qed
qed

lemma every_index_reached:
  assumes "i < (N::nat)" and "j < N"
  shows "\<exists>d<N. (j + d) mod N = i"
proof (cases "j \<le> i")
  case True
  with assms show ?thesis by (intro exI[of _ "i - j"]) simp
next
  case False
  with assms have "(j + (i + N - j)) mod N = i" by simp
  moreover from False assms have "i + N - j < N" by simp
  ultimately show ?thesis by blast
qed

lemma rotateKey_None_iff:
  "fst (rotateKey now m) = None \<longleftrightarrow> fst (getAvailableKeys now m) = []"
proof
  assume "fst (getAvailableKeys now m) = []"
  then show "fst (rotateKey now m) = None" by (simp add: rotateKey_eq)
next
  let ?av = "fst (getAvailableKeys now m)"
  let ?N = "length (apiKeys m)"
  let ?j = "(currentKeyIndex m + 1) mod ?N"
  assume r: "fst (rotateKey now m) = None"
  show "?av = []"
  proof (rule ccontr)
    assume ne: "?av \<noteq> []"
    then obtain x where x: "x \<in> set ?av" by (cases ?av) auto
    with available_subset[of now m] have "x \<in> set (apiKeys m)" by auto
    then obtain i where i: "i < ?N" "apiKeys m ! i = x" by (auto simp: in_set_conv_nth)
    then have j: "?j < ?N" by (intro mod_less_divisor) auto
    have loop: "rotateLoop ?av (apiKeys m) ?j 0 = None"
    proof (cases "rotateLoop ?av (apiKeys m) ?j 0")
      case None
      then show ?thesis .
    next
      case (Some i')
      from rotateLoop_found[OF Some j] obtain d where "i' = (?j + d) mod ?N" by blast
      moreover have "0 < ?N" using i(1) by auto
      ultimately have "i' < ?N" by simp
      with r ne Some show ?thesis by (simp add: rotateKey_eq nth_opt_eq)
    qed
    from every_index_reached[OF i(1) j] obtain d where d: "d < ?N" "(?j + d) mod ?N = i" by blast
    from rotateLoop_not_found[OF loop j] d have "\<not> includesKey ?av (nth_opt (apiKeys m) i)"
      by auto
    with i x show False by (simp add: nth_opt_eq includesKey_def)
  qed
qed

lemma rotateKey_next_available:
  assumes "fst (rotateKey now m) = Some k"
  shows "\<exists>d<length (apiKeys m).
           currentKeyIndex (snd (rotateKey now m)) = (currentKeyIndex m + 1 + d) mod length (apiKeys m)
         \<and> apiKeys m ! ((currentKeyIndex m + 1 + d) mod length (apiKeys m)) = k
         \<and> k \<in> set (fst (getAvailableKeys now m))
         \<and> (\<forall>d'<d. apiKeys m ! ((currentKeyIndex m + 1 + d') mod length (apiKeys m))
                       \<notin> set (fst (getAvailableKeys now m)))"
proof -
  let ?av = "fst (getAvailableKeys now m)"
  let ?N = "length (apiKeys m)"
  let ?j = "(currentKeyIndex m + 1) mod ?N"
  from assms have ne: "?av \<noteq> []" using rotateKey_None_iff[of now m] by auto
  with available_subset[of now m] have N: "0 < ?N" by (cases "apiKeys m") auto
  then have j: "?j < ?N" by simp
  from assms ne obtain i where loop: "rotateLoop ?av (apiKeys m) ?j 0 = Some i"
    by (auto simp: rotateKey_eq Let_def split: option.splits)
  from rotateLoop_found[OF loop j] obtain d where d: "d < ?N" "i = (?j + d) mod ?N"
    "includesKey ?av (nth_opt (apiKeys m) i)"
    "\<forall>d'<d. \<not> includesKey ?av (nth_opt (apiKeys m) ((?j + d') mod ?N))" by auto
  have shift: "(?j + x) mod ?N = (currentKeyIndex m + 1 + x) mod ?N" for x
    by (simp add: mod_add_left_eq)
  have iN: "i < ?N" using d(2) N by simp
  from assms ne loop iN have k: "apiKeys m ! i = k" and idx: "currentKeyIndex (snd (rotateKey now m)) = i"
    by (simp_all add: rotateKey_eq nth_opt_eq)
  from d(3) iN k have kav: "k \<in> set ?av" by (simp add: nth_opt_eq includesKey_def)
  have "\<forall>d'<d. apiKeys m ! ((currentKeyIndex m + 1 + d') mod ?N) \<notin> set ?av"
  proof (intro allI impI)
    fix d' assume "d' < d"
    with d(4) have "\<not> includesKey ?av (nth_opt (apiKeys m) ((?j + d') mod ?N))" by simp
    moreover have "(currentKeyIndex m + 1 + d') mod ?N < ?N" using N by simp
    ultimately show "apiKeys m ! ((currentKeyIndex m + 1 + d') mod ?N) \<notin> set ?av"
      unfolding shift by (simp add: nth_opt_eq includesKey_def)
  qed
  with d(1) idx k kav show ?thesis
    unfolding d(2) shift by blast
qed

lemma keysReady_init: "keysReady (APIKeyManager_init keys)"
  by (simp add: keysReady_def init_status)
     (simp add: APIKeyManager_init_def initialStatus_def truthyTime_def)

lemma keysReady_settled: "keysReady m \<Longrightarrow> keysSettled m"
  by (auto simp: keysReady_def keysSettled_def)

lemma keysReady_available:
  assumes "keysReady m"
  shows "fst (getAvailableKeys now m) = apiKeys m"
proof -
  have "\<forall>k \<in> set (apiKeys m). keyAvailable now (keyStatuses m) k"
    using assms
    by (auto simp: keysReady_def keyAvailable_def statusAvailable_def statusAfter_def)
  then show ?thesis by (simp add: getAvailableKeys_fst)
qed

lemma keysReady_rotateKey:
  assumes "keysReady m"
  shows "keysReady (snd (rotateKey now m))"
  using assms settled_getAvailableKeys_status[OF keysReady_settled[OF assms], of now]
  by (simp add: keysReady_def)

lemma rotateKey_ready:
  assumes r: "keysReady m" and ne: "apiKeys m \<noteq> []"
  shows "fst (rotateKey now m)
           = Some (apiKeys m ! ((currentKeyIndex m + 1) mod length (apiKeys m)))"
    and "currentKeyIndex (snd (rotateKey now m)) = (currentKeyIndex m + 1) mod length (apiKeys m)"
proof -
  let ?N = "length (apiKeys m)"
  let ?j = "(currentKeyIndex m + 1) mod ?N"
  have N: "0 < ?N" using ne by simp
  then have j: "?j < ?N" by (intro mod_less_divisor)
  have av: "fst (getAvailableKeys now m) = apiKeys m" using r by (rule keysReady_available)
  have "includesKey (apiKeys m) (nth_opt (apiKeys m) ?j)"
    using j by (simp add: nth_opt_eq includesKey_def)
  then have loop: "rotateLoop (apiKeys m) (apiKeys m) ?j 0 = Some ?j"
    using N by (subst rotateLoop.simps) simp
  show "fst (rotateKey now m) = Some (apiKeys m ! ?j)"
    using ne j loop by (simp add: rotateKey_eq av nth_opt_eq Let_def)
  show "currentKeyIndex (snd (rotateKey now m)) = ?j"
    using ne loop by (simp add: rotateKey_eq av Let_def)
qed

lemma suc_mod_shift: "Suc (Suc i mod N + x) mod N = Suc (Suc (i + x)) mod N"
proof -
  have "Suc (Suc i mod N + x) mod N = (Suc i mod N + Suc x) mod N" by simp
  also have "\<dots> = (Suc i + Suc x) mod N" by (rule mod_add_left_eq)
  finally show ?thesis by simp
qed

lemma rotateSeq_ready:
  assumes "keysReady m" and "apiKeys m \<noteq> []" and "currentKeyIndex m < length (apiKeys m)"
  shows "fst (rotateSeq ts m)
           = map (\<lambda>j. Some (apiKeys m ! ((currentKeyIndex m + Suc j) mod length (apiKeys m))))
               [0..<length ts]
       \<and> currentKeyIndex (snd (rotateSeq ts m))
           = (currentKeyIndex m + length ts) mod length (apiKeys m)
       \<and> apiKeys (snd (rotateSeq ts m)) = apiKeys m"
  using assms
proof (induction ts arbitrary: m)
  case Nil
  then show ?case by simp
next
  case (Cons t ts)
  let ?N = "length (apiKeys m)"
  let ?m' = "snd (rotateKey t m)"
  have r': "keysReady ?m'" using Cons.prems(1) by (rule keysReady_rotateKey)
  have ne': "apiKeys ?m' \<noteq> []" using Cons.prems(2) by simp
  note step = rotateKey_ready[OF Cons.prems(1,2), of t]
  have idx': "currentKeyIndex ?m' < length (apiKeys ?m')"
    using Cons.prems(2) by (simp add: step(2))
  note ih = Cons.IH[OF r' ne' idx']
  have shift: "((currentKeyIndex m + 1) mod ?N + x) mod ?N = (currentKeyIndex m + Suc x) mod ?N" for x
    by (simp add: mod_add_left_eq)
  have fst_eq: "fst (rotateSeq (t # ts) m) = fst (rotateKey t m) # fst (rotateSeq ts ?m')"
    and snd_eq: "snd (rotateSeq (t # ts) m) = snd (rotateSeq ts ?m')"
    by (simp_all add: case_prod_beta)
  have "fst (rotateSeq ts ?m')
        = map (\<lambda>j. Some (apiKeys m ! ((currentKeyIndex m + Suc (Suc j)) mod ?N))) [0..<length ts]"
    using ih unfolding step(2) by (simp add: suc_mod_shift)
  then have "fst (rotateSeq (t # ts) m)
        = map (\<lambda>j. Some (apiKeys m ! ((currentKeyIndex m + Suc j) mod ?N))) [0..<Suc (length ts)]"
    unfolding fst_eq step(1) map_upt_Suc by simp
  moreover have "currentKeyIndex (snd (rotateSeq (t # ts) m))
        = (currentKeyIndex m + length (t # ts)) mod ?N"
    unfolding snd_eq using ih unfolding step(2) by (simp add: mod_simps)
  moreover have "apiKeys (snd (rotateSeq (t # ts) m)) = apiKeys m"
    unfolding snd_eq using ih by simp
  ultimately show ?case by simp
qed

lemma round_robin_list:
  assumes "xs \<noteq> []"
  shows "map (\<lambda>j. Some (xs ! (Suc j mod length xs))) [0..<length xs] = map Some (rotate1 xs)"
proof (rule nth_equalityI)
  show "length (map (\<lambda>j. Some (xs ! (Suc j mod length xs))) [0..<length xs])
        = length (map Some (rotate1 xs))" by simp
next
  fix i assume "i < length (map (\<lambda>j. Some (xs ! (Suc j mod length xs))) [0..<length xs])"
  then have i: "i < length xs" by simp
  then show "map (\<lambda>j. Some (xs ! (Suc j mod length xs))) [0..<length xs] ! i
             = map Some (rotate1 xs) ! i"
    by (simp add: nth_rotate1)
qed

section \<open>Facts about the client\<close>

lemmas client_eval =
  searchChannels_def asChannelArray_def searchCacheKey_def videosCacheKey_def searchChannelsViaService_def searchChannelsViaAPI_def
  SearchService_searchChannels_def isHealthy_def getVideoDetails_def getChannelsByIds_def
  validatedItems_def validateResponse_def hasField_def itemsOf_def handleError_def createAPIError_def
  makeAPIRequest_search_def makeAPIRequest_channels_def makeAPIRequest_videos_def
  makeAPIRequest_playlistItems_def mapChannelItem_def mapVideoItem_def thumbnailOf_def
  extractVideoIds_def uniqueInOrder_def channelRelevanceMap_def relevanceStep_def relevanceOf_def
  sortByRelevance_def searchCacheDuration_def trim_def isWhiteSpace_def toLowerCase_def lowerChar_def isUpper_def
  batchesOf.simps numberToString.simps getChannelInfo_def getChannelVideos_def publishedSince_def
  getVideos_def setVideos_def getChannel_def setChannel_def APICache_new_def Let_def

lemma handleError_quota:
  "quotaSignal a msg \<Longrightarrow> handleError (ThrownAxios a) = quotaExceededError msg"
  by (auto simp: quotaSignal_def handleError_def quotaExceededError_def createAPIError_def Let_def
      split: option.splits)

lemma validateResponse_failure:
  "validateResponse response requiredFields = Inl e \<Longrightarrow> code e = 500 \<and> retryable e"
  by (auto simp: validateResponse_def createAPIError_def split: api_body.splits option.splits if_splits)

lemma handleError_axios_response:
  assumes "ae_response a = Some r"
  shows "code (handleError (ThrownAxios a)) = ar_status r"
    and "retryable (handleError (ThrownAxios a)) \<longleftrightarrow> ar_status r \<notin> {400, 403, 404}"
  using assms by (auto simp: handleError_def createAPIError_def Let_def)

lemma getChannelInfo_not_found:
  assumes "length (trim channelId) \<noteq> 0"
    and "fst (getChannel channelId now (cache c)) = None"
    and "api_channels w (apiKey c) channelId = Inr (Body fs (ItemsArray []))"
  shows "fst (getChannelInfo w channelId now c)
         = Inl \<lparr>code = 404, message = ''Channel not found'',
                 userMessage = ''The channel you requested could not be found'', retryable = False\<rparr>"
  using assms
  by (cases "getChannel channelId now (cache c)")
     (simp add: getChannelInfo_def validatedItems_def makeAPIRequest_channels_def
        validateResponse_def hasField_def itemsOf_def handleError_def createAPIError_def)

lemma sameSettings_refl [simp]: "sameSettings c c"
  by (simp add: sameSettings_def)

lemma sameSettings_updates [simp]:
  "sameSettings c (c'\<lparr>calls := l\<rparr>) = sameSettings c c'"
  "sameSettings c (c'\<lparr>cache := k\<rparr>) = sameSettings c c'"
  "sameSettings c (c'\<lparr>searchService := s\<rparr>) = sameSettings c c'"
  by (simp_all add: sameSettings_def)

lemma validatedItems_eq:
  "validatedItems (r, c) =
     (case r of Inl t \<Rightarrow> Inl (handleError t)
      | Inr response \<Rightarrow> (case validateResponse response [''items''] of
            Inl e \<Rightarrow> Inl (handleError (ThrownAPIError e)) | Inr u \<Rightarrow> Inr (itemsOf response)), c)"
  by (simp add: validatedItems_def split: sum.splits)

lemma getChannelsByIds_settings: "sameSettings c (snd (getChannelsByIds w ids c))"
  by (simp add: getChannelsByIds_def makeAPIRequest_channels_def validatedItems_eq
      split: sum.splits)

lemma getChannelsByIds_fst:
  "sameSettings c c' \<Longrightarrow> fst (getChannelsByIds w ids c') = fst (getChannelsByIds w ids c)"
  by (simp add: getChannelsByIds_def makeAPIRequest_channels_def validatedItems_eq sameSettings_def
      split: sum.splits)

lemma fetchBatches_settings: "sameSettings c (snd (fetchBatches w bs acc c))"
proof (induction bs arbitrary: acc c)
  case Nil
  then show ?case by simp
next
  case (Cons b bs)
  show ?case
    using Cons[of "c\<lparr>calls := calls c @ [ProviderVideos (apiKey c) (joinComma b)]\<rparr>"]
    by (simp add: makeAPIRequest_videos_def validatedItems_eq sameSettings_def split: sum.splits)
qed

lemma getVideoDetails_settings: "sameSettings c (snd (getVideoDetails w ids c))"
  by (simp add: getVideoDetails_def fetchBatches_settings)

lemma sameSettings_trans: "sameSettings a b \<Longrightarrow> sameSettings b c \<Longrightarrow> sameSettings a c"
  by (simp add: sameSettings_def)

lemma searchChannelsViaService_settings:
  "sameSettings c (snd (searchChannelsViaService w q k now c))"
proof -
  let ?c1 = "snd (SearchService_searchChannels w q (min (maxResults c) 25) c)"
  have s1: "sameSettings c ?c1" by (simp add: SearchService_searchChannels_def)
  have s2: "sameSettings c (snd (getVideoDetails w ids ?c1))" for ids
    using sameSettings_trans[OF s1 getVideoDetails_settings] .
  have s3: "sameSettings c (snd (getChannelsByIds w cids (snd (getVideoDetails w ids ?c1))))" for ids cids
    using sameSettings_trans[OF s2 getChannelsByIds_settings] .
  show ?thesis
    using s1 s2 s3
    by (simp add: searchChannelsViaService_def Let_def case_prod_beta split: sum.splits)
qed

lemma searchChannelsViaAPI_fst:
  assumes "sameSettings c c'"
  shows "fst (searchChannelsViaAPI w q k now c') = fst (searchChannelsViaAPI w q k now c)"
proof -
  have a: "apiKey c' = apiKey c" "maxResults c' = maxResults c"
    using assms by (simp_all add: sameSettings_def)
  have g: "fst (getChannelsByIds w ids (c'\<lparr>calls := calls c' @ [ProviderSearch (apiKey c) q n]\<rparr>))
           = fst (getChannelsByIds w ids (c\<lparr>calls := calls c @ [ProviderSearch (apiKey c) q n]\<rparr>))"
    for ids n
    by (rule getChannelsByIds_fst) (use assms in \<open>simp add: sameSettings_def\<close>)
  show ?thesis
    by (simp add: searchChannelsViaAPI_def makeAPIRequest_search_def validatedItems_eq a g Let_def
        case_prod_beta split: sum.splits)
qed

lemma asChannelArray_fst:
  "fst rc = fst rc' \<Longrightarrow> fst (asChannelArray rc) = fst (asChannelArray rc')"
  by (cases rc; cases rc') (auto simp: asChannelArray_def split: sum.splits)

lemma searchChannels_no_bridge:
  assumes "length (trim query) \<noteq> 0"
    and "fst (getVideos (searchCacheKey query) now (cache c)) = None"
  shows "searchChannels w query now (c\<lparr>searchService := None\<rparr>)
         = asChannelArray (searchChannelsViaAPI w query (searchCacheKey query) now
             (c\<lparr>searchService := None, cache := snd (getVideos (searchCacheKey query) now (cache c))\<rparr>))"
  using assms
  by (cases "getVideos (searchCacheKey query) now (cache c)")
     (simp add: searchChannels_def Let_def)

lemma searchChannels_unhealthy:
  assumes "length (trim query) \<noteq> 0"
    and "fst (getVideos (searchCacheKey query) now (cache c)) = None"
    and "searchService c \<noteq> None" and "useSearchService c"
    and "bridge_health w \<noteq> Some True"
  shows "searchChannels w query now c
         = asChannelArray (searchChannelsViaAPI w query (searchCacheKey query) now
             (c\<lparr>cache := snd (getVideos (searchCacheKey query) now (cache c)),
                calls := calls c @ [HealthProbe]\<rparr>))"
proof -
  have h: "(case bridge_health w of None \<Rightarrow> False | Some ok \<Rightarrow> ok) = False"
    using assms(5) by (cases "bridge_health w") auto
  show ?thesis
    using assms(1-4)
    by (cases "getVideos (searchCacheKey query) now (cache c)")
       (simp add: searchChannels_def Let_def isHealthy_def h)
qed

lemma searchChannels_bridge_throws:
  assumes "length (trim query) \<noteq> 0"
    and "fst (getVideos (searchCacheKey query) now (cache c)) = None"
    and "searchService c \<noteq> None" and "useSearchService c"
    and "bridge_health w = Some True"
    and "fst (searchChannelsViaService w query (searchCacheKey query) now
               (c\<lparr>cache := snd (getVideos (searchCacheKey query) now (cache c)),
                  calls := calls c @ [HealthProbe]\<rparr>)) = Inl e"
  shows "searchChannels w query now c
         = asChannelArray (searchChannelsViaAPI w query (searchCacheKey query) now
             (snd (searchChannelsViaService w query (searchCacheKey query) now
               (c\<lparr>cache := snd (getVideos (searchCacheKey query) now (cache c)),
                  calls := calls c @ [HealthProbe]\<rparr>))))"
  using assms
  by (cases "getVideos (searchCacheKey query) now (cache c)";
      cases "searchChannelsViaService w query (searchCacheKey query) now
               (c\<lparr>cache := snd (getVideos (searchCacheKey query) now (cache c)),
                  calls := calls c @ [HealthProbe]\<rparr>)")
     (simp add: searchChannels_def Let_def isHealthy_def)

lemma searchChannels_bridge_success:
  assumes "length (trim query) \<noteq> 0"
    and "fst (getVideos (searchCacheKey query) now (cache c)) = None"
    and "searchService c \<noteq> None" and "useSearchService c"
    and "bridge_health w = Some True"
    and "fst (searchChannelsViaService w query (searchCacheKey query) now
               (c\<lparr>cache := snd (getVideos (searchCacheKey query) now (cache c)),
                  calls := calls c @ [HealthProbe]\<rparr>)) = Inr channels"
  shows "searchChannels w query now c
         = (Inr (ChannelArr channels),
            snd (searchChannelsViaService w query (searchCacheKey query) now
               (c\<lparr>cache := snd (getVideos (searchCacheKey query) now (cache c)),
                  calls := calls c @ [HealthProbe]\<rparr>)))"
  using assms
  by (cases "getVideos (searchCacheKey query) now (cache c)";
      cases "searchChannelsViaService w query (searchCacheKey query) now
               (c\<lparr>cache := snd (getVideos (searchCacheKey query) now (cache c)),
                  calls := calls c @ [HealthProbe]\<rparr>)")
     (simp add: searchChannels_def Let_def isHealthy_def)

lemma native_result_without_bridge:
  assumes "length (trim query) \<noteq> 0"
    and "fst (getVideos (searchCacheKey query) now (cache c)) = None"
    and "sameSettings c c'"
  shows "fst (asChannelArray (searchChannelsViaAPI w query (searchCacheKey query) now c'))
         = fst (searchChannels w query now (c\<lparr>searchService := None\<rparr>))"
  unfolding searchChannels_no_bridge[OF assms(1,2)]
  by (rule asChannelArray_fst, rule searchChannelsViaAPI_fst)
     (use assms(3) in \<open>simp add: sameSettings_def\<close>)

lemma getVideos_miss_absent:
  "fst (getVideos k now ch) = None \<Longrightarrow> map_of (videoCache (snd (getVideos k now ch))) k = None"
  by (auto simp: getVideos_def delete_conv' split: option.splits if_splits)

lemma getVideos_absent:
  "map_of (videoCache ch) k = None \<Longrightarrow> getVideos k now ch = (None, ch)"
  by (simp add: getVideos_def)

lemma searchChannelsViaService_zero_hits:
  assumes "length (trim query) \<noteq> 0"
    and "bridge_search w (trim query) (min (maxResults c) 25) = Inr []"
  shows "searchChannelsViaService w query cacheKey now c
         = (Inr [], c\<lparr>calls := calls c @ [BridgeSearch (trim query) (min (maxResults c) 25)]\<rparr>)"
  using assms by (simp add: searchChannelsViaService_def SearchService_searchChannels_def)

lemma searchChannels_bridge_zero_hits:
  assumes "length (trim query) \<noteq> 0"
    and "fst (getVideos (searchCacheKey query) now (cache c)) = None"
    and "searchService c \<noteq> None" and "useSearchService c"
    and "bridge_health w = Some True"
    and "bridge_search w (trim query) (min (maxResults c) 25) = Inr []"
  shows "searchChannels w query now c
         = (Inr (ChannelArr []),
            c\<lparr>cache := snd (getVideos (searchCacheKey query) now (cache c)),
              calls := calls c @ [HealthProbe, BridgeSearch (trim query) (min (maxResults c) 25)]\<rparr>)"
proof -
  let ?c1 = "c\<lparr>cache := snd (getVideos (searchCacheKey query) now (cache c)),
                calls := calls c @ [HealthProbe]\<rparr>"
  have b: "bridge_search w (trim query) (min (maxResults ?c1) 25) = Inr []"
    using assms(6) by simp
  note z = searchChannelsViaService_zero_hits[OF assms(1) b, of "searchCacheKey query" now]
  have "fst (searchChannelsViaService w query (searchCacheKey query) now ?c1) = Inr []"
    unfolding z by simp
  from searchChannels_bridge_success[OF assms(1-5) this] show ?thesis
    unfolding z by simp
qed

lemma searchChannelsViaAPI_zero_hits:
  assumes "api_search w (apiKey c) query (min (maxResults c) 25) = Inr (Body fs (ItemsArray []))"
  shows "searchChannelsViaAPI w query cacheKey now c
         = (Inr [], c\<lparr>calls := calls c @ [ProviderSearch (apiKey c) query (min (maxResults c) 25)]\<rparr>)"
  using assms
  by (simp add: searchChannelsViaAPI_def makeAPIRequest_search_def validatedItems_eq
      validateResponse_def hasField_def itemsOf_def)

lemma searchChannels_native_zero_hits:
  assumes "length (trim query) \<noteq> 0"
    and "fst (getVideos (searchCacheKey query) now (cache c)) = None"
    and "searchService c = None \<or> \<not> useSearchService c"
    and "api_search w (apiKey c) query (min (maxResults c) 25) = Inr (Body fs (ItemsArray []))"
  shows "searchChannels w query now c
         = (Inr (ChannelArr []),
            c\<lparr>cache := snd (getVideos (searchCacheKey query) now (cache c)),
              calls := calls c @ [ProviderSearch (apiKey c) query (min (maxResults c) 25)]\<rparr>)"
proof -
  let ?c0 = "c\<lparr>cache := snd (getVideos (searchCacheKey query) now (cache c))\<rparr>"
  have a: "api_search w (apiKey ?c0) query (min (maxResults ?c0) 25) = Inr (Body fs (ItemsArray []))"
    using assms(4) by simp
  show ?thesis
    using assms
    by (cases "getVideos (searchCacheKey query) now (cache c)")
       (auto simp: searchChannels_def Let_def asChannelArray_def
          searchChannelsViaAPI_zero_hits[where fs = fs])
qed




lemma firstHitConfidences_Cons:
  "firstHitConfidences hits (v # vs) cid =
     (case (if v_channelId v = cid then find (\<lambda>sr. sr_videoId sr = v_id v) hits else None) of
        None \<Rightarrow> firstHitConfidences hits vs cid
      | Some sr \<Rightarrow> confidence sr # firstHitConfidences hits vs cid)"
  by (simp add: firstHitConfidences_def split: option.splits)

lemma relevance_fold:
  "(case fold (relevanceStep hits) vs m cid of None \<Rightarrow> 0 | Some x \<Rightarrow> x)
   = Max (set ((case m cid of None \<Rightarrow> 0 | Some x \<Rightarrow> x) # firstHitConfidences hits vs cid))"
proof (induction vs arbitrary: m)
  case Nil
  then show ?case by (simp add: firstHitConfidences_def)
next
  case (Cons v vs)
  let ?a = "case m cid of None \<Rightarrow> 0 | Some x \<Rightarrow> x"
  let ?T = "set (firstHitConfidences hits vs cid)"
  show ?case
  proof (cases "v_channelId v = cid \<and> find (\<lambda>sr. sr_videoId sr = v_id v) hits \<noteq> None")
    case True
    then obtain sr where sr: "find (\<lambda>sr. sr_videoId sr = v_id v) hits = Some sr"
      and ch: "v_channelId v = cid" by auto
    have step: "(case relevanceStep hits v m cid of None \<Rightarrow> 0 | Some x \<Rightarrow> x) = max ?a (confidence sr)"
      by (simp add: relevanceStep_def sr ch Let_def)
    have "Max (insert (max ?a (confidence sr)) ?T) = Max (insert ?a (insert (confidence sr) ?T))"
    proof (cases "?T = {}")
      case True
      then show ?thesis by (simp add: max.commute)
    next
      case False
      then show ?thesis by (simp add: max.assoc)
    qed
    then show ?thesis
      by (simp add: Cons.IH step firstHitConfidences_Cons sr ch)
  next
    case False
    then have step: "(case relevanceStep hits v m cid of None \<Rightarrow> 0 | Some x \<Rightarrow> x) = ?a"
      by (auto simp: relevanceStep_def Let_def split: option.splits)
    from False show ?thesis
      by (auto simp: Cons.IH step firstHitConfidences_Cons split: option.splits)
  qed
qed

lemma relevanceOf_max:
  "relevanceOf (channelRelevanceMap hits videos) ch
   = Max (set (0 # firstHitConfidences hits videos (c_id ch)))"
  using relevance_fold[of hits videos Map.empty "c_id ch"]
  by (simp add: relevanceOf_def channelRelevanceMap_def)

lemma sortByRelevance_descending:
  assumes "i \<le> j" and "j < length channels"
  shows "relevanceOf m (sortByRelevance m channels ! j) \<le> relevanceOf m (sortByRelevance m channels ! i)"
proof -
  let ?f = "\<lambda>ch. - relevanceOf m ch"
  have s: "sorted (map ?f (sort_key ?f channels))" by (rule sorted_sort_key)
  have j: "j < length (map ?f (sort_key ?f channels))" using assms(2) by simp
  from sorted_nth_mono[OF s assms(1) j]
  show ?thesis using assms by (simp add: sortByRelevance_def)
qed

lemma sortByRelevance_stable:
  "filter (\<lambda>ch. relevanceOf m ch = r) (sortByRelevance m channels)
   = filter (\<lambda>ch. relevanceOf m ch = r) channels"
  using sort_key_stable[of "\<lambda>ch. - relevanceOf m ch" "- r" channels]
  by (simp add: sortByRelevance_def)

lemma searchChannelsViaService_ranked:
  assumes "length (trim query) \<noteq> 0"
    and "bridge_search w (trim query) (min (maxResults c) 25) = Inr hits" and "hits \<noteq> []"
    and "fst (getVideoDetails w (extractVideoIds hits)
               (c\<lparr>calls := calls c @ [BridgeSearch (trim query) (min (maxResults c) 25)]\<rparr>)) = Inr videos"
    and "uniqueInOrder (map v_channelId videos) \<noteq> []"
    and "fst (getChannelsByIds w (uniqueInOrder (map v_channelId videos))
               (snd (getVideoDetails w (extractVideoIds hits)
                 (c\<lparr>calls := calls c @ [BridgeSearch (trim query) (min (maxResults c) 25)]\<rparr>)))) = Inr channels"
  shows "fst (searchChannelsViaService w query cacheKey now c)
         = Inr (sortByRelevance (channelRelevanceMap hits videos) channels)"
  using assms
  by (simp add: searchChannelsViaService_def SearchService_searchChannels_def Let_def case_prod_beta
      split: sum.splits)

lemma bridge_falls_through:
  assumes "length (trim query) \<noteq> 0"
    and "fst (getVideos (searchCacheKey query) now (cache c)) = None"
    and "searchService c \<noteq> None" and "useSearchService c"
  shows "(bridge_health w \<noteq> Some True \<longrightarrow>
            searchChannels w query now c
              = asChannelArray (searchChannelsViaAPI w query (searchCacheKey query) now
                  (c\<lparr>cache := snd (getVideos (searchCacheKey query) now (cache c)),
                     calls := calls c @ [HealthProbe]\<rparr>))
          \<and> fst (searchChannels w query now c)
              = fst (searchChannels w query now (c\<lparr>searchService := None\<rparr>)))
       \<and> (bridge_health w = Some True
            \<and> fst (searchChannelsViaService w query (searchCacheKey query) now
                 (c\<lparr>cache := snd (getVideos (searchCacheKey query) now (cache c)),
                    calls := calls c @ [HealthProbe]\<rparr>)) = Inl e \<longrightarrow>
            searchChannels w query now c
              = asChannelArray (searchChannelsViaAPI w query (searchCacheKey query) now
                  (snd (searchChannelsViaService w query (searchCacheKey query) now
                     (c\<lparr>cache := snd (getVideos (searchCacheKey query) now (cache c)),
                        calls := calls c @ [HealthProbe]\<rparr>))))
          \<and> fst (searchChannels w query now c)
              = fst (searchChannels w query now (c\<lparr>searchService := None\<rparr>)))
       \<and> (fst (searchChannels w query now c) = Inl e' \<longrightarrow>
            fst (searchChannels w query now (c\<lparr>searchService := None\<rparr>)) = Inl e')"
proof -
  let ?key = "searchCacheKey query"
  let ?c1 = "c\<lparr>cache := snd (getVideos ?key now (cache c)), calls := calls c @ [HealthProbe]\<rparr>"
  let ?c2 = "snd (searchChannelsViaService w query ?key now ?c1)"
  have s1: "sameSettings c ?c1" by simp
  have s2: "sameSettings c ?c2"
    using sameSettings_trans[OF s1 searchChannelsViaService_settings] .
  have down: "searchChannels w query now c = asChannelArray (searchChannelsViaAPI w query ?key now ?c1)"
    "fst (searchChannels w query now c) = fst (searchChannels w query now (c\<lparr>searchService := None\<rparr>))"
    if h: "bridge_health w \<noteq> Some True"
  proof -
    show a: "searchChannels w query now c = asChannelArray (searchChannelsViaAPI w query ?key now ?c1)"
      by (rule searchChannels_unhealthy[OF assms h])
    show "fst (searchChannels w query now c) = fst (searchChannels w query now (c\<lparr>searchService := None\<rparr>))"
      unfolding a by (rule native_result_without_bridge[OF assms(1,2) s1])
  qed
  have throws: "searchChannels w query now c = asChannelArray (searchChannelsViaAPI w query ?key now ?c2)"
    "fst (searchChannels w query now c) = fst (searchChannels w query now (c\<lparr>searchService := None\<rparr>))"
    if h: "bridge_health w = Some True" and t: "fst (searchChannelsViaService w query ?key now ?c1) = Inl x"
    for x
  proof -
    show a: "searchChannels w query now c = asChannelArray (searchChannelsViaAPI w query ?key now ?c2)"
      by (rule searchChannels_bridge_throws[OF assms h t])
    show "fst (searchChannels w query now c) = fst (searchChannels w query now (c\<lparr>searchService := None\<rparr>))"
      unfolding a by (rule native_result_without_bridge[OF assms(1,2) s2])
  qed
  have surfaced: "fst (searchChannels w query now (c\<lparr>searchService := None\<rparr>)) = Inl e'"
    if f: "fst (searchChannels w query now c) = Inl e'"
  proof (cases "bridge_health w = Some True")
    case False
    with down(2) f show ?thesis by simp
  next
    case True
    show ?thesis
    proof (cases "fst (searchChannelsViaService w query ?key now ?c1)")
      case (Inl x)
      with throws(2)[OF True Inl] f show ?thesis by simp
    next
      case (Inr channels)
      from searchChannels_bridge_success[OF assms True Inr] f show ?thesis by simp
    qed
  qed
  show ?thesis
    using down throws[of e] surfaced by blast
qed

lemma empty_result_not_cached:
  assumes "length (trim query) \<noteq> 0"
    and "fst (getVideos (searchCacheKey query) now (cache c)) = None"
  shows "(searchService c \<noteq> None \<and> useSearchService c \<and> bridge_health w = Some True
          \<and> bridge_search w (trim query) (min (maxResults c) 25) = Inr [] \<longrightarrow>
            fst (searchChannels w query now c) = Inr (ChannelArr [])
          \<and> map_of (videoCache (cache (snd (searchChannels w query now c)))) (searchCacheKey query) = None
          \<and> calls (snd (searchChannels w query now c))
              = calls c @ [HealthProbe, BridgeSearch (trim query) (min (maxResults c) 25)]
          \<and> fst (searchChannels w query later (snd (searchChannels w query now c))) = Inr (ChannelArr [])
          \<and> calls (snd (searchChannels w query later (snd (searchChannels w query now c))))
              = calls c @ [HealthProbe, BridgeSearch (trim query) (min (maxResults c) 25),
                           HealthProbe, BridgeSearch (trim query) (min (maxResults c) 25)])
       \<and> ((searchService c = None \<or> \<not> useSearchService c)
          \<and> api_search w (apiKey c) query (min (maxResults c) 25) = Inr (Body fs (ItemsArray [])) \<longrightarrow>
            fst (searchChannels w query now c) = Inr (ChannelArr [])
          \<and> map_of (videoCache (cache (snd (searchChannels w query now c)))) (searchCacheKey query) = None
          \<and> calls (snd (searchChannels w query now c))
              = calls c @ [ProviderSearch (apiKey c) query (min (maxResults c) 25)]
          \<and> fst (searchChannels w query later (snd (searchChannels w query now c))) = Inr (ChannelArr [])
          \<and> calls (snd (searchChannels w query later (snd (searchChannels w query now c))))
              = calls c @ [ProviderSearch (apiKey c) query (min (maxResults c) 25),
                           ProviderSearch (apiKey c) query (min (maxResults c) 25)])"
proof (intro conjI impI)
  let ?key = "searchCacheKey query"
  let ?n = "min (maxResults c) 25"
  let ?cache1 = "snd (getVideos ?key now (cache c))"
  note absent = getVideos_miss_absent[OF assms(2)]
  {
    assume a: "searchService c \<noteq> None \<and> useSearchService c \<and> bridge_health w = Some True
          \<and> bridge_search w (trim query) ?n = Inr []"
    let ?c' = "c\<lparr>cache := ?cache1, calls := calls c @ [HealthProbe, BridgeSearch (trim query) ?n]\<rparr>"
    have first: "searchChannels w query now c = (Inr (ChannelArr []), ?c')"
      using a by (intro searchChannels_bridge_zero_hits[OF assms]) auto
    have miss': "fst (getVideos ?key later (cache ?c')) = None"
      using absent by (simp add: getVideos_absent)
    have second: "searchChannels w query later ?c'
        = (Inr (ChannelArr []),
           ?c'\<lparr>cache := snd (getVideos ?key later (cache ?c')),
                calls := calls ?c' @ [HealthProbe, BridgeSearch (trim query) (min (maxResults ?c') 25)]\<rparr>)"
      using a by (intro searchChannels_bridge_zero_hits[OF assms(1) miss']) auto
    show "fst (searchChannels w query now c) = Inr (ChannelArr [])"
      and "map_of (videoCache (cache (snd (searchChannels w query now c)))) ?key = None"
      and "calls (snd (searchChannels w query now c)) = calls c @ [HealthProbe, BridgeSearch (trim query) ?n]"
      using absent by (simp_all add: first)
    show "fst (searchChannels w query later (snd (searchChannels w query now c))) = Inr (ChannelArr [])"
      and "calls (snd (searchChannels w query later (snd (searchChannels w query now c))))
              = calls c @ [HealthProbe, BridgeSearch (trim query) ?n, HealthProbe, BridgeSearch (trim query) ?n]"
      unfolding first snd_conv second by simp_all
  }
  {
    assume a: "(searchService c = None \<or> \<not> useSearchService c)
          \<and> api_search w (apiKey c) query ?n = Inr (Body fs (ItemsArray []))"
    let ?c' = "c\<lparr>cache := ?cache1, calls := calls c @ [ProviderSearch (apiKey c) query ?n]\<rparr>"
    have first: "searchChannels w query now c = (Inr (ChannelArr []), ?c')"
      using a by (intro searchChannels_native_zero_hits[OF assms]) auto
    have miss': "fst (getVideos ?key later (cache ?c')) = None"
      using absent by (simp add: getVideos_absent)
    have second: "searchChannels w query later ?c'
        = (Inr (ChannelArr []),
           ?c'\<lparr>cache := snd (getVideos ?key later (cache ?c')),
                calls := calls ?c' @ [ProviderSearch (apiKey ?c') query (min (maxResults ?c') 25)]\<rparr>)"
      using a by (intro searchChannels_native_zero_hits[OF assms(1) miss']) auto
    show "fst (searchChannels w query now c) = Inr (ChannelArr [])"
      and "map_of (videoCache (cache (snd (searchChannels w query now c)))) ?key = None"
      and "calls (snd (searchChannels w query now c)) = calls c @ [ProviderSearch (apiKey c) query ?n]"
      using absent by (simp_all add: first)
    show "fst (searchChannels w query later (snd (searchChannels w query now c))) = Inr (ChannelArr [])"
      and "calls (snd (searchChannels w query later (snd (searchChannels w query now c))))
              = calls c @ [ProviderSearch (apiKey c) query ?n, ProviderSearch (apiKey c) query ?n]"
      unfolding first snd_conv second by simp_all
  }
qed

subsection \<open>Runs of the methods and their outbound calls\<close>

lemma newCalls_append: "calls c' = calls c @ tr \<Longrightarrow> newCalls c c' = tr"
  by (simp add: newCalls_def)

lemma cleanCalls_simps [simp]:
  "cleanCalls w []"
  "cleanCalls w (x # tr) = (callFailure w x = None \<and> cleanCalls w tr)"
  "cleanCalls w (tr @ tr') = (cleanCalls w tr \<and> cleanCalls w tr')"
  by (auto simp: cleanCalls_def)

lemma failsAt_prepend:
  "cleanCalls w tr1 \<Longrightarrow> failsAt w tr2 e \<Longrightarrow> failsAt w (tr1 @ tr2) e"
  by (simp add: failsAt_def butlast_append)

lemma notFoundAt_prepend:
  "cleanCalls w tr1 \<Longrightarrow> notFoundAt w tr2 e \<Longrightarrow> notFoundAt w (tr1 @ tr2) e"
  by (simp add: notFoundAt_def)

lemma sameConfig_refl [simp]: "sameConfig c c"
  by (simp add: sameConfig_def)

lemma sameConfig_updates [simp]:
  "sameConfig c (c'\<lparr>calls := l\<rparr>) = sameConfig c c'"
  "sameConfig c (c'\<lparr>cache := k\<rparr>) = sameConfig c c'"
  "sameConfig (c\<lparr>calls := l\<rparr>) c' = sameConfig c c'"
  "sameConfig (c\<lparr>cache := k\<rparr>) c' = sameConfig c c'"
  by (simp_all add: sameConfig_def)

lemma sameConfig_trans: "sameConfig a b \<Longrightarrow> sameConfig b c \<Longrightarrow> sameConfig a c"
  by (simp add: sameConfig_def)

text \<open>Sequencing: a run that succeeded, followed by a run from the state it left.\<close>

lemma run_seq:
  assumes 1: "run l1 w c (Inr v, c1)" and 2: "run l2 w c1 rc" and l: "l2 \<longrightarrow> l"
  shows "run l w c rc"
proof -
  let ?t1 = "newCalls c c1" and ?t2 = "newCalls c1 (snd rc)"
  from 1 have a: "calls c1 = calls c @ ?t1" "sameConfig c c1" "list_all (usesKey (apiKey c)) ?t1"
    "cleanCalls w ?t1"
    by (simp_all add: run_def singleKey_def)
  from 2 have b: "calls (snd rc) = calls c1 @ ?t2" "sameConfig c1 (snd rc)"
    "list_all (usesKey (apiKey c1)) ?t2"
    "case fst rc of Inl e \<Rightarrow> failsAt w ?t2 e \<or> (l2 \<and> notFoundAt w ?t2 e) | Inr v \<Rightarrow> cleanCalls w ?t2"
    by (simp_all add: run_def singleKey_def)
  have k: "apiKey c1 = apiKey c" using a(2) by (simp add: sameConfig_def)
  have t: "calls (snd rc) = calls c @ (?t1 @ ?t2)"
    using a(1) b(1) by simp
  have n: "newCalls c (snd rc) = ?t1 @ ?t2"
    by (rule newCalls_append[OF t])
  show ?thesis
    unfolding run_def singleKey_def n
    using t sameConfig_trans[OF a(2) b(2)] a(3,4) b(3,4) l k
    by (auto split: sum.splits intro: failsAt_prepend notFoundAt_prepend)
qed

lemma run_cache_post: "run l w c rc \<Longrightarrow> run l w c (fst rc, (snd rc)\<lparr>cache := k\<rparr>)"
  by (auto simp: run_def singleKey_def newCalls_def split: sum.splits)

lemma run_cache_pre: "run l w (c\<lparr>cache := k\<rparr>) rc \<Longrightarrow> run l w c rc"
  by (auto simp: run_def singleKey_def newCalls_def split: sum.splits)

lemma run_nothing: "run l w c (Inr v, c)"
  by (simp add: run_def singleKey_def newCalls_def)

lemma run_one:
  assumes "usesKey (apiKey c) call"
  shows "run False w c (case callFailure w call of Some e \<Rightarrow> Inl e | None \<Rightarrow> Inr v,
                        c\<lparr>calls := calls c @ [call]\<rparr>)"
  using assms by (auto simp: run_def singleKey_def newCalls_def failsAt_def split: option.splits)

text \<open>One request and the validation of its answer.\<close>

lemma responseFailure_validated:
  "validatedItems (case r of Inl e \<Rightarrow> Inl (ThrownAxios e) | Inr b \<Rightarrow> Inr b, c1)
     = (case responseFailure r of Some e \<Rightarrow> Inl e | None \<Rightarrow> Inr (itemsOf (projr r)), c1)"
  by (auto simp: validatedItems_eq responseFailure_def handleError_def split: sum.splits)

lemma step_channels:
  "validatedItems (makeAPIRequest_channels w ids c)
     = (case callFailure w (ProviderChannels (apiKey c) ids) of
          Some e \<Rightarrow> Inl e | None \<Rightarrow> Inr (itemsOf (projr (api_channels w (apiKey c) ids))),
        c\<lparr>calls := calls c @ [ProviderChannels (apiKey c) ids]\<rparr>)"
  by (simp add: makeAPIRequest_channels_def responseFailure_validated callFailure_def)

lemma step_videos:
  "validatedItems (makeAPIRequest_videos w ids c)
     = (case callFailure w (ProviderVideos (apiKey c) ids) of
          Some e \<Rightarrow> Inl e | None \<Rightarrow> Inr (itemsOf (projr (api_videos w (apiKey c) ids))),
        c\<lparr>calls := calls c @ [ProviderVideos (apiKey c) ids]\<rparr>)"
  by (simp add: makeAPIRequest_videos_def responseFailure_validated callFailure_def)

lemma step_search:
  "validatedItems (makeAPIRequest_search w q n c)
     = (case callFailure w (ProviderSearch (apiKey c) q n) of
          Some e \<Rightarrow> Inl e | None \<Rightarrow> Inr (itemsOf (projr (api_search w (apiKey c) q n))),
        c\<lparr>calls := calls c @ [ProviderSearch (apiKey c) q n]\<rparr>)"
  by (simp add: makeAPIRequest_search_def responseFailure_validated callFailure_def)

lemma step_playlistItems:
  "validatedItems (makeAPIRequest_playlistItems w p n c)
     = (case callFailure w (ProviderPlaylistItems (apiKey c) p n) of
          Some e \<Rightarrow> Inl e | None \<Rightarrow> Inr (itemsOf (projr (api_playlistItems w (apiKey c) p n))),
        c\<lparr>calls := calls c @ [ProviderPlaylistItems (apiKey c) p n]\<rparr>)"
  by (simp add: makeAPIRequest_playlistItems_def responseFailure_validated callFailure_def)

lemma run_getChannelsByIds: "run False w c (getChannelsByIds w ids c)"
proof (cases "length ids = 0")
  case True
  then show ?thesis by (simp add: getChannelsByIds_def run_nothing)
next
  case False
  let ?call = "ProviderChannels (apiKey c) (joinComma ids)"
  have u: "usesKey (apiKey c) ?call" by (simp add: usesKey_def)
  show ?thesis
    using run_one[OF u, of w "map mapChannelItem (itemsOf (projr (api_channels w (apiKey c) (joinComma ids))))"]
      False
    by (simp add: getChannelsByIds_def step_channels split: option.splits)
qed

lemma run_fetchBatches: "run False w c (fetchBatches w bs acc c)"
proof (induction bs arbitrary: acc c)
  case Nil
  show ?case by (simp add: run_nothing)
next
  case (Cons b bs)
  let ?call = "ProviderVideos (apiKey c) (joinComma b)"
  let ?c1 = "c\<lparr>calls := calls c @ [?call]\<rparr>"
  have u: "usesKey (apiKey c) ?call" by (simp add: usesKey_def)
  show ?case
  proof (cases "callFailure w ?call")
    case (Some e)
    with run_one[OF u, of w acc] show ?thesis
      by (simp add: step_videos)
  next
    case None
    with run_one[OF u, of w "()"] have 1: "run False w c (Inr (), ?c1)"
      by simp
    show ?thesis
      using run_seq[OF 1 Cons.IH[where c = ?c1]]
      by (simp add: step_videos None)
  qed
qed

lemma run_getVideoDetails: "run False w c (getVideoDetails w ids c)"
  by (simp add: getVideoDetails_def run_nothing run_fetchBatches)


lemma handleError_APIError [simp]: "handleError (ThrownAPIError e) = e"
  by (simp add: handleError_def)

lemma noSuchChannel_items:
  assumes "callFailure w (ProviderChannels k ids) = None"
    and "itemsOf (projr (api_channels w k ids)) = []"
  shows "noSuchChannel w (ProviderChannels k ids)"
  using assms
  by (auto simp: callFailure_def responseFailure_def noSuchChannel_def split: sum.splits)

lemma getChannelInfo_blank:
  "length (trim channelId) = 0 \<Longrightarrow> getChannelInfo w channelId now c = (Inl blankChannelIdError, c)"
  by (simp add: getChannelInfo_def blankChannelIdError_def createAPIError_def)

lemma run_getChannelInfo:
  assumes "length (trim channelId) \<noteq> 0"
  shows "run True w c (getChannelInfo w channelId now c)"
proof (cases "getChannel channelId now (cache c)")
  case (Pair found cache1)
  show ?thesis
  proof (cases found)
    case (Some ch)
    with Pair assms run_cache_post[OF run_nothing[of True w c ch], of cache1] show ?thesis
      by (simp add: getChannelInfo_def)
  next
    case None
    let ?call = "ProviderChannels (apiKey c) channelId"
    show ?thesis
    proof (cases "callFailure w ?call")
      case (Some e)
      with None Pair assms show ?thesis
        by (simp add: getChannelInfo_def step_channels run_def singleKey_def newCalls_def
            failsAt_def usesKey_def)
    next
      case clean: None
      show ?thesis
      proof (cases "itemsOf (projr (api_channels w (apiKey c) channelId))")
        case Nil
        from noSuchChannel_items[OF clean Nil] clean Nil None Pair assms show ?thesis
          by (simp add: getChannelInfo_def step_channels run_def singleKey_def newCalls_def
              notFoundAt_def usesKey_def channelNotFoundError_def createAPIError_def)
      next
        case (Cons item rest)
        with clean None Pair assms show ?thesis
          by (simp add: getChannelInfo_def step_channels run_def singleKey_def newCalls_def
              usesKey_def Let_def)
      qed
    qed
  qed
qed

lemma run_searchChannelsViaAPI: "run False w c (searchChannelsViaAPI w query cacheKey now c)"
proof -
  let ?n = "min (maxResults c) 25"
  let ?call = "ProviderSearch (apiKey c) query ?n"
  let ?c1 = "c\<lparr>calls := calls c @ [?call]\<rparr>"
  let ?ids = "map si_channelId (itemsOf (projr (api_search w (apiKey c) query ?n)))"
  have u: "usesKey (apiKey c) ?call" by (simp add: usesKey_def)
  show ?thesis
  proof (cases "callFailure w ?call")
    case (Some e)
    with run_one[OF u, of w "[]"] show ?thesis
      by (simp add: searchChannelsViaAPI_def step_search)
  next
    case None
    with run_one[OF u, of w "()"] have 1: "run False w c (Inr (), ?c1)" by simp
    show ?thesis
    proof (cases "length ?ids = 0")
      case True
      with run_one[OF u, of w "[]"] None show ?thesis
        by (simp add: searchChannelsViaAPI_def step_search Let_def)
    next
      case False
      obtain r c2 where g: "getChannelsByIds w ?ids ?c1 = (r, c2)"
        by (cases "getChannelsByIds w ?ids ?c1")
      have 2: "run False w c (r, c2)"
        using run_seq[OF 1 run_getChannelsByIds[of w ?c1 ?ids]] g by simp
      show ?thesis
      proof (cases r)
        case (Inl e)
        with 2 None False g show ?thesis
          by (simp add: searchChannelsViaAPI_def step_search Let_def)
      next
        case (Inr channels)
        with run_cache_post[OF 2] None False g show ?thesis
          by (simp add: searchChannelsViaAPI_def step_search Let_def)
      qed
    qed
  qed
qed


lemma getChannelVideos_blank:
  "length (trim channelId) = 0 \<Longrightarrow>
     getChannelVideos w channelId limit now c = (Inl blankChannelIdError, c)"
  by (simp add: getChannelVideos_def blankChannelIdError_def createAPIError_def)

lemma run_getChannelVideos:
  assumes nb: "length (trim channelId) \<noteq> 0"
  shows "run True w c (getChannelVideos w channelId limit now c)"
proof -
  let ?n = "case limit of None \<Rightarrow> maxResults c | Some n \<Rightarrow> n"
  let ?key = "videosCacheKey channelId ?n"
  obtain found cache1 where gv: "getVideos ?key now (cache c) = (found, cache1)"
    by (cases "getVideos ?key now (cache c)")
  show ?thesis
  proof (cases found)
    case (Some arr)
    with gv nb run_cache_post[OF run_nothing[of True w c arr], of cache1] show ?thesis
      by (simp add: getChannelVideos_def Let_def)
  next
    case None
    let ?c0 = "c\<lparr>cache := cache1\<rparr>"
    obtain r1 c1 where gi: "getChannelInfo w channelId now ?c0 = (r1, c1)"
      by (cases "getChannelInfo w channelId now ?c0")
    have 1: "run True w c (r1, c1)"
      using run_cache_pre[OF run_getChannelInfo[OF nb, of w ?c0 now]] gi by simp
    show ?thesis
    proof (cases r1)
      case (Inl e)
      with 1 gv None nb gi show ?thesis
        by (simp add: getChannelVideos_def Let_def run_def singleKey_def)
    next
      case (Inr channel)
      let ?call = "ProviderPlaylistItems (apiKey c1) (uploadsPlaylistId channel) ?n"
      let ?c2 = "c1\<lparr>calls := calls c1 @ [?call]\<rparr>"
      let ?its = "itemsOf (projr (api_playlistItems w (apiKey c1) (uploadsPlaylistId channel) ?n))"
      let ?ids = "map pi_videoId
                    (filter (publishedSince (dateMinusDays w now (videoTimeWindowDays c1))) ?its)"
      have u: "usesKey (apiKey c1) ?call" by (simp add: usesKey_def)
      have 1: "run True w c (Inr channel, c1)" using 1 Inr by simp
      have m: "maxResults c1 = maxResults c"
        using 1 by (simp add: run_def singleKey_def sameConfig_def)
      show ?thesis
      proof (cases "callFailure w ?call")
        case (Some e)
        with run_one[OF u, of w "VideoArr []"]
        have "run False w c1 (Inl e :: APIError + js_array, ?c2)" by simp
        from run_seq[OF 1 this] gv None nb gi Inr Some show ?thesis
          by (simp add: getChannelVideos_def Let_def step_playlistItems)
      next
        case clean: None
        with run_one[OF u, of w "VideoArr []"]
        have 2: "run False w c1 (Inr (VideoArr []), ?c2)" by simp
        note 12 = run_seq[OF 1 2, of True]
        show ?thesis
        proof (cases "length ?ids = 0")
          case True
          with 12 gv None nb gi Inr clean show ?thesis
            by (simp add: getChannelVideos_def Let_def step_playlistItems)
        next
          case False
          obtain r3 c3 where gd: "getVideoDetails w ?ids ?c2 = (r3, c3)"
            by (cases "getVideoDetails w ?ids ?c2")
          have 3: "run True w c (r3, c3)"
            using run_seq[OF 12 run_getVideoDetails[of w ?c2 ?ids], of True] gd by simp
          show ?thesis
          proof (cases r3)
            case (Inl e)
            with 3 have "run True w c (Inl e :: APIError + js_array, c3)"
              by (simp add: run_def singleKey_def)
            with gv None nb gi Inr clean False gd Inl show ?thesis
              by (simp add: getChannelVideos_def Let_def step_playlistItems)
          next
            case inr: (Inr videos)
            with 3 have "run True w c (Inr (VideoArr videos), c3)"
              by (simp add: run_def singleKey_def)
            from run_cache_post[OF this] gv None nb gi Inr clean False gd inr show ?thesis
              by (simp add: getChannelVideos_def Let_def step_playlistItems)
          qed
        qed
      qed
    qed
  qed
qed

text \<open>The search-service branch keeps to the key; a failure of it leaves the cache as it was.\<close>

lemma singleKey_seq:
  assumes 1: "singleKey c (r1, c1)" and 2: "singleKey c1 rc"
  shows "singleKey c (fst rc, snd rc)"
proof -
  let ?t1 = "newCalls c c1" and ?t2 = "newCalls c1 (snd rc)"
  from 1 have a: "calls c1 = calls c @ ?t1" "sameConfig c c1" "list_all (usesKey (apiKey c)) ?t1"
    by (simp_all add: singleKey_def)
  from 2 have b: "calls (snd rc) = calls c1 @ ?t2" "sameConfig c1 (snd rc)"
    "list_all (usesKey (apiKey c1)) ?t2"
    by (simp_all add: singleKey_def)
  have k: "apiKey c1 = apiKey c" using a(2) by (simp add: sameConfig_def)
  have t: "calls (snd rc) = calls c @ (?t1 @ ?t2)"
    using a(1) b(1) by simp
  have n: "newCalls c (snd rc) = ?t1 @ ?t2"
    by (rule newCalls_append[OF t])
  show ?thesis
    unfolding singleKey_def snd_conv n
    using t sameConfig_trans[OF a(2) b(2)] a(3) b(3) k by simp
qed

lemma run_singleKey: "run l w c rc \<Longrightarrow> singleKey c rc"
  by (simp add: run_def)

lemma singleKey_cache_post: "singleKey c (r, c1) \<Longrightarrow> singleKey c (r', c1\<lparr>cache := k\<rparr>)"
  by (simp add: singleKey_def newCalls_def)

lemma singleKey_SearchService:
  "singleKey c (SearchService_searchChannels w query n c)"
  by (simp add: SearchService_searchChannels_def singleKey_def newCalls_def usesKey_def)

lemma SearchService_cache:
  "cache (snd (SearchService_searchChannels w query n c)) = cache c"
  by (simp add: SearchService_searchChannels_def)

lemma getChannelsByIds_cache: "cache (snd (getChannelsByIds w ids c)) = cache c"
  by (simp add: getChannelsByIds_def step_channels split: option.splits)

lemma fetchBatches_cache: "cache (snd (fetchBatches w bs acc c)) = cache c"
proof (induction bs arbitrary: acc c)
  case Nil
  show ?case by simp
next
  case (Cons b bs)
  show ?case
    using Cons.IH[where c = "c\<lparr>calls := calls c @ [ProviderVideos (apiKey c) (joinComma b)]\<rparr>"]
    by (simp add: step_videos split: option.splits)
qed

lemma getVideoDetails_cache: "cache (snd (getVideoDetails w ids c)) = cache c"
  by (simp add: getVideoDetails_def fetchBatches_cache)

lemma searchChannelsViaService_facts:
  "singleKey c (searchChannelsViaService w query cacheKey now c)"
  "isl (fst (searchChannelsViaService w query cacheKey now c)) \<Longrightarrow>
     cache (snd (searchChannelsViaService w query cacheKey now c)) = cache c"
  "fst (searchChannelsViaService w query cacheKey now c) = Inr [] \<Longrightarrow>
     cache (snd (searchChannelsViaService w query cacheKey now c)) = cache c
     \<or> map_of (videoCache (cache (snd (searchChannelsViaService w query cacheKey now c)))) cacheKey
         \<noteq> None"
proof -
  let ?n = "min (maxResults c) 25"
  obtain r1 c1 where s: "SearchService_searchChannels w query ?n c = (r1, c1)"
    by (cases "SearchService_searchChannels w query ?n c")
  have k1: "singleKey c (r1, c1)" and h1: "cache c1 = cache c"
    using singleKey_SearchService[of c w query ?n] SearchService_cache[of w query ?n c] s by simp_all
  let ?goal1 = "singleKey c (searchChannelsViaService w query cacheKey now c)"
  let ?goal2 = "isl (fst (searchChannelsViaService w query cacheKey now c)) \<longrightarrow>
     cache (snd (searchChannelsViaService w query cacheKey now c)) = cache c"
  let ?goal3 = "fst (searchChannelsViaService w query cacheKey now c) = Inr [] \<longrightarrow>
     cache (snd (searchChannelsViaService w query cacheKey now c)) = cache c
     \<or> map_of (videoCache (cache (snd (searchChannelsViaService w query cacheKey now c)))) cacheKey
         \<noteq> None"
  have "?goal1 \<and> ?goal2 \<and> ?goal3"
  proof (cases r1)
    case (Inl t)
    with s k1 h1 show ?thesis
      by (simp add: searchChannelsViaService_def singleKey_def)
  next
    case (Inr hits)
    show ?thesis
    proof (cases "length hits = 0")
      case True
      with s k1 h1 Inr show ?thesis
        by (simp add: searchChannelsViaService_def singleKey_def)
    next
      case False
      obtain r2 c2 where d: "getVideoDetails w (extractVideoIds hits) c1 = (r2, c2)"
        by (cases "getVideoDetails w (extractVideoIds hits) c1")
      have k2: "singleKey c (r2, c2)"
        using singleKey_seq[OF k1 run_singleKey[OF run_getVideoDetails[of w c1 "extractVideoIds hits"]]] d
        by simp
      have h2: "cache c2 = cache c"
        using getVideoDetails_cache[of w "extractVideoIds hits" c1] d h1 by simp
      show ?thesis
      proof (cases r2)
        case (Inl e)
        with s Inr False d k2 h2 show ?thesis
          by (simp add: searchChannelsViaService_def singleKey_def)
      next
        case vids: (Inr videoDetails)
        let ?cids = "uniqueInOrder (map v_channelId videoDetails)"
        show ?thesis
        proof (cases "length ?cids = 0")
          case True
          with s Inr False d k2 h2 vids show ?thesis
            by (simp add: searchChannelsViaService_def singleKey_def Let_def)
        next
          case nz: False
          obtain r3 c3 where g: "getChannelsByIds w ?cids c2 = (r3, c3)"
            by (cases "getChannelsByIds w ?cids c2")
          have k3: "singleKey c (r3, c3)"
            using singleKey_seq[OF k2 run_singleKey[OF run_getChannelsByIds[of w c2 ?cids]]] g
            by simp
          have h3: "cache c3 = cache c"
            using getChannelsByIds_cache[of w ?cids c2] g h2 by simp
          show ?thesis
          proof (cases r3)
            case (Inl e)
            with s Inr False d vids nz g k3 h3 show ?thesis
              by (simp add: searchChannelsViaService_def singleKey_def Let_def)
          next
            case chans: (Inr channels)
            with s Inr False d vids nz g singleKey_cache_post[OF k3] show ?thesis
              by (simp add: searchChannelsViaService_def Let_def setVideos_def update_conv')
          qed
        qed
      qed
    qed
  qed
  then show ?goal1
    and "isl (fst (searchChannelsViaService w query cacheKey now c)) \<Longrightarrow>
     cache (snd (searchChannelsViaService w query cacheKey now c)) = cache c"
    and "fst (searchChannelsViaService w query cacheKey now c) = Inr [] \<Longrightarrow>
     cache (snd (searchChannelsViaService w query cacheKey now c)) = cache c
     \<or> map_of (videoCache (cache (snd (searchChannelsViaService w query cacheKey now c)))) cacheKey
         \<noteq> None"
    by blast+
qed


text \<open>The search as a whole.\<close>

lemma searchChannels_blank:
  "length (trim query) = 0 \<Longrightarrow> searchChannels w query now c = (Inl blankQueryError, c)"
  by (simp add: searchChannels_def blankQueryError_def createAPIError_def)

lemma isHealthy_eq:
  "isHealthy w c = (bridge_health w = Some True, c\<lparr>calls := calls c @ [HealthProbe]\<rparr>)"
  by (cases "bridge_health w") (auto simp: isHealthy_def)

lemma searchChannels_reaches:
  assumes "reachesNative w query now c"
  shows "searchChannels w query now c
         = asChannelArray (searchChannelsViaAPI w query (searchCacheKey query) now
             (afterBridgeAttempt w query now c))"
    and "cache (afterBridgeAttempt w query now c) = snd (getVideos (searchCacheKey query) now (cache c))"
proof -
  let ?key = "searchCacheKey query"
  let ?c1 = "afterProbe query now c"
  obtain cache1 where gv: "getVideos ?key now (cache c) = (None, cache1)"
    using assms by (cases "getVideos ?key now (cache c)") (auto simp: reachesNative_def searchMisses_def)
  have nb: "length (trim query) \<noteq> 0"
    using assms by (simp add: reachesNative_def searchMisses_def)
  have p: "afterProbe query now c = c\<lparr>cache := cache1, calls := calls c @ [HealthProbe]\<rparr>"
    by (simp add: afterProbe_def gv)
  have both: "searchChannels w query now c
         = asChannelArray (searchChannelsViaAPI w query ?key now (afterBridgeAttempt w query now c))
       \<and> cache (afterBridgeAttempt w query now c) = cache1"
  proof (cases "bridgeEnabled c")
    case False
    then show ?thesis
      using gv nb by (auto simp: searchChannels_def afterBridgeAttempt_def bridgeEnabled_def Let_def)
  next
    case True
    show ?thesis
    proof (cases "bridge_health w = Some True")
      case False
      with True gv nb show ?thesis
        by (auto simp: searchChannels_def afterBridgeAttempt_def bridgeEnabled_def Let_def
            isHealthy_eq)
    next
      case healthy: True
      with assms True
      have f: "isl (fst (searchChannelsViaService w query ?key now
                 (c\<lparr>cache := cache1, calls := calls c @ [HealthProbe]\<rparr>)))"
        by (simp add: reachesNative_def p)
      obtain r2 c2 where v: "searchChannelsViaService w query ?key now
                 (c\<lparr>cache := cache1, calls := calls c @ [HealthProbe]\<rparr>) = (r2, c2)"
        by (cases "searchChannelsViaService w query ?key now
                 (c\<lparr>cache := cache1, calls := calls c @ [HealthProbe]\<rparr>)")
      from f v obtain e where r2: "r2 = Inl e" by (cases r2) auto
      from searchChannelsViaService_facts(2)[OF f] v have "cache c2 = cache1" by simp
      with True healthy gv nb v r2 show ?thesis
        by (simp add: searchChannels_def afterBridgeAttempt_def bridgeEnabled_def Let_def
            isHealthy_eq)
    qed
  qed
  from both show "searchChannels w query now c
         = asChannelArray (searchChannelsViaAPI w query ?key now (afterBridgeAttempt w query now c))"
    by simp
  from both show "cache (afterBridgeAttempt w query now c) = snd (getVideos ?key now (cache c))"
    by (simp add: gv)
qed

lemma searchChannels_settled:
  assumes "length (trim query) \<noteq> 0" and "\<not> reachesNative w query now c"
  shows "\<exists>arr. searchChannels w query now c = (Inr arr, afterBridgeAttempt w query now c)"
proof -
  let ?key = "searchCacheKey query"
  obtain found cache1 where gv: "getVideos ?key now (cache c) = (found, cache1)"
    by (cases "getVideos ?key now (cache c)")
  show ?thesis
  proof (cases found)
    case (Some arr)
    with gv assms(1) show ?thesis
      by (simp add: searchChannels_def afterBridgeAttempt_def Let_def)
  next
    case None
    with gv assms have b: "bridgeEnabled c" "bridge_health w = Some True"
      and f: "\<not> isl (fst (searchChannelsViaService w query ?key now
                 (c\<lparr>cache := cache1, calls := calls c @ [HealthProbe]\<rparr>)))"
      by (auto simp: reachesNative_def searchMisses_def afterProbe_def)
    obtain r2 c2 where v: "searchChannelsViaService w query ?key now
                 (c\<lparr>cache := cache1, calls := calls c @ [HealthProbe]\<rparr>) = (r2, c2)"
      by (cases "searchChannelsViaService w query ?key now
                 (c\<lparr>cache := cache1, calls := calls c @ [HealthProbe]\<rparr>)")
    from f v obtain channels where r2: "r2 = Inr channels" by (cases r2) auto
    from b gv None assms(1) v r2 show ?thesis
      by (simp add: searchChannels_def afterBridgeAttempt_def bridgeEnabled_def Let_def
          isHealthy_eq)
  qed
qed

lemma singleKey_afterBridgeAttempt: "singleKey c (r, afterBridgeAttempt w query now c)"
proof -
  let ?key = "searchCacheKey query"
  obtain found cache1 where gv: "getVideos ?key now (cache c) = (found, cache1)"
    by (cases "getVideos ?key now (cache c)")
  let ?c1 = "c\<lparr>cache := cache1, calls := calls c @ [HealthProbe]\<rparr>"
  have 1: "singleKey c ((), ?c1)"
    by (simp add: singleKey_def newCalls_def usesKey_def)
  have 2: "singleKey c (r, snd (searchChannelsViaService w query ?key now ?c1))"
    using singleKey_seq[OF 1 searchChannelsViaService_facts(1)[of ?c1 w query ?key now]]
    by (simp add: singleKey_def)
  have 3: "singleKey c (r, ?c1)"
    by (simp add: singleKey_def newCalls_def usesKey_def)
  have 0: "singleKey c (r, c)" "singleKey c (r, c\<lparr>cache := cache1\<rparr>)"
    by (simp_all add: singleKey_def newCalls_def)
  show ?thesis
    using 0 2 3 gv
    by (auto simp: afterBridgeAttempt_def Let_def isHealthy_eq split: option.splits bool.splits)
qed

lemma asChannelArray_run: "run l w c rc \<Longrightarrow> run l w c (asChannelArray rc)"
  by (cases rc) (auto simp: asChannelArray_def run_def singleKey_def split: sum.splits)

lemma run_searchChannels:
  assumes "length (trim query) \<noteq> 0"
  shows "run False w (afterBridgeAttempt w query now c) (searchChannels w query now c)"
proof (cases "reachesNative w query now c")
  case True
  show ?thesis
    unfolding searchChannels_reaches(1)[OF True]
    by (rule asChannelArray_run) (rule run_searchChannelsViaAPI)
next
  case False
  from searchChannels_settled[OF assms False] show ?thesis
    by (auto simp: run_nothing)
qed

lemma singleKey_searchChannels: "singleKey c (searchChannels w query now c)"
proof (cases "length (trim query) = 0")
  case True
  then show ?thesis
    by (simp add: searchChannels_blank singleKey_def newCalls_def)
next
  case False
  from singleKey_seq[OF singleKey_afterBridgeAttempt[of c "()" w query now]
      run_singleKey[OF run_searchChannels[OF False, of w now c]]]
  show ?thesis by simp
qed

text \<open>What a run says about a quota answer and about the failure it surfaces.\<close>

lemma quotaAnswer_failure:
  "quotaAnswer w x msg \<Longrightarrow> callFailure w x = Some (quotaExceededError msg)"
  by (auto simp: quotaAnswer_def callError_def callFailure_def responseError_def responseFailure_def
      handleError_quota split: outbound.splits option.splits sum.splits)

lemma not_in_butlast:
  assumes "x \<in> set tr" and "x \<notin> set (butlast tr)"
  shows "tr \<noteq> [] \<and> last tr = x \<and> count_list tr x = 1"
proof -
  from assms(1) have ne: "tr \<noteq> []" by auto
  then have tr: "tr = butlast tr @ [last tr]" by simp
  with assms have l: "last tr = x"
    by (metis Un_iff empty_iff empty_set set_ConsD set_append)
  have "count_list (butlast tr @ [last tr]) x = 1"
    using assms(2) l by (simp add: count_list_0_iff)
  with tr ne l show ?thesis by simp
qed

lemma run_quotaStops:
  assumes "run l w c rc"
  shows "quotaStops w c rc x msg"
  unfolding quotaStops_def
proof (intro impI)
  let ?tr = "newCalls c (snd rc)"
  assume a: "x \<in> set ?tr \<and> quotaAnswer w x msg"
  then have f: "callFailure w x = Some (quotaExceededError msg)"
    by (simp add: quotaAnswer_failure)
  have dirty: "\<not> cleanCalls w tr" if "x \<in> set tr" for tr
    using that f by (auto simp: cleanCalls_def list_all_iff)
  from assms have ext: "calls (snd rc) = calls c @ ?tr"
    by (simp add: run_def singleKey_def)
  from assms a dirty[of ?tr] obtain e where e: "fst rc = Inl e" and fa: "failsAt w ?tr e"
    by (cases "fst rc") (auto simp: run_def notFoundAt_def)
  from fa have cl: "cleanCalls w (butlast ?tr)" and la: "callFailure w (last ?tr) = Some e"
    by (simp_all add: failsAt_def)
  from cl dirty[of "butlast ?tr"] have nb: "x \<notin> set (butlast ?tr)" by blast
  from not_in_butlast[OF _ nb] a
  have l: "?tr \<noteq> []" "last ?tr = x" "count_list ?tr x = 1" by simp_all
  from la l(2) f have "e = quotaExceededError msg" by simp
  moreover have "last (calls (snd rc)) = x"
    using ext l(1,2) by (metis last_appendR)
  ultimately show "fst rc = Inl (quotaExceededError msg) \<and> last (calls (snd rc)) = x
      \<and> count_list ?tr x = 1"
    using e l(3) by simp
qed

lemma quotaStops_nothing: "newCalls c (snd rc) = [] \<Longrightarrow> quotaStops w c rc x msg"
  by (simp add: quotaStops_def)

lemma run_surfaces:
  assumes "run l w c rc" and "fst rc = Inl e"
  shows "surfaces w l (newCalls c (snd rc)) e"
  using assms
  by (auto simp: run_def surfaces_def failsAt_def notFoundAt_def cleanCalls_def list_all_iff
      split: option.splits)

lemma callFailure_flags:
  assumes "callFailure w x = Some e"
  shows "retryable e \<longleftrightarrow> code e \<notin> {400, 403, 404}"
proof -
  have h: "retryable (handleError (ThrownAxios a)) \<longleftrightarrow> code (handleError (ThrownAxios a)) \<notin> {400, 403, 404}"
    for a
    by (cases "ae_response a") (auto simp: handleError_def createAPIError_def Let_def)
  have v: "retryable e' \<longleftrightarrow> code e' \<notin> {400, 403, 404}"
    if "validateResponse (body :: 'i api_body) [''items''] = Inl e'" for body e'
    using validateResponse_failure[OF that] by simp
  have r: "retryable e \<longleftrightarrow> code e \<notin> {400, 403, 404}"
    if "responseFailure (a :: AxiosError + 'i api_body) = Some e" for a
    using that h v by (auto simp: responseFailure_def split: sum.splits)
  have b: "retryable (handleError (ThrownError msg)) \<longleftrightarrow> code (handleError (ThrownError msg)) \<notin> {400, 403, 404}"
    for msg
    by (simp add: handleError_def createAPIError_def)
  from assms show ?thesis
    by (auto simp: callFailure_def b split: outbound.splits sum.splits dest: r)
qed

lemma surfaces_flags:
  "surfaces w l tr e \<Longrightarrow> retryable e \<longleftrightarrow> code e \<notin> {400, 403, 404}"
  by (auto simp: surfaces_def channelNotFoundError_def split: option.splits dest: callFailure_flags)


text \<open>
  The requests of a method depend on the key, the limit and the world only: from any
  two states with the same key the same calls are added and the same result is
  returned.
\<close>

lemma fetchBatches_frame:
  "\<exists>r tr. \<forall>c. apiKey c = k \<longrightarrow> fetchBatches w bs acc c = (r, c\<lparr>calls := calls c @ tr\<rparr>)"
proof (induction bs arbitrary: acc)
  case Nil
  show ?case by (intro exI[of _ "Inr acc"] exI[of _ "[]"]) simp
next
  case (Cons b bs)
  let ?call = "ProviderVideos k (joinComma b)"
  show ?case
  proof (cases "callFailure w ?call")
    case (Some e)
    show ?thesis
      by (intro exI[of _ "Inl e"] exI[of _ "[?call]"]) (simp add: step_videos Some)
  next
    case None
    from Cons.IH[of "acc @ map mapVideoItem (itemsOf (projr (api_videos w k (joinComma b))))"]
    obtain r tr where f: "\<And>c. apiKey c = k \<Longrightarrow>
        fetchBatches w bs (acc @ map mapVideoItem (itemsOf (projr (api_videos w k (joinComma b))))) c
          = (r, c\<lparr>calls := calls c @ tr\<rparr>)"
      by blast
    show ?thesis
    proof (intro exI[of _ r] exI[of _ "?call # tr"] allI impI)
      fix c :: YouTubeAPIClient
      assume k: "apiKey c = k"
      from f[of "c\<lparr>calls := calls c @ [?call]\<rparr>"] k None
      show "fetchBatches w (b # bs) acc c = (r, c\<lparr>calls := calls c @ ?call # tr\<rparr>)"
        by (simp add: step_videos)
    qed
  qed
qed

lemma getVideoDetails_frame:
  "\<exists>r tr. \<forall>c. apiKey c = k \<longrightarrow> getVideoDetails w ids c = (r, c\<lparr>calls := calls c @ tr\<rparr>)"
proof (cases "length ids = 0")
  case True
  show ?thesis
    by (intro exI[of _ "Inr []"] exI[of _ "[]"]) (simp add: getVideoDetails_def True)
next
  case False
  with fetchBatches_frame[of k w "batchesOf 50 ids" "[]"] show ?thesis
    by (simp add: getVideoDetails_def)
qed

lemma getChannelsByIds_frame:
  "\<exists>r tr. \<forall>c. apiKey c = k \<longrightarrow> getChannelsByIds w ids c = (r, c\<lparr>calls := calls c @ tr\<rparr>)"
proof (cases "length ids = 0")
  case True
  show ?thesis
    by (intro exI[of _ "Inr []"] exI[of _ "[]"]) (simp add: getChannelsByIds_def True)
next
  case False
  let ?call = "ProviderChannels k (joinComma ids)"
  show ?thesis
    by (intro exI[of _ "case callFailure w ?call of Some e \<Rightarrow> Inl e
                         | None \<Rightarrow> Inr (map mapChannelItem (itemsOf (projr (api_channels w k (joinComma ids)))))"]
          exI[of _ "[?call]"])
       (use False in \<open>simp add: getChannelsByIds_def step_channels split: option.splits\<close>)
qed

lemma SearchService_frame:
  "\<exists>r tr. \<forall>c. SearchService_searchChannels w query n c = (r, c\<lparr>calls := calls c @ tr\<rparr>)"
proof (cases "length (trim query) = 0")
  case True
  show ?thesis
    by (intro exI[of _ "Inl (ThrownError ''Search query cannot be empty'')"] exI[of _ "[]"])
       (simp add: SearchService_searchChannels_def True)
next
  case False
  show ?thesis
    by (intro exI[of _ "case bridge_search w (trim query) n of Inl msg \<Rightarrow> Inl (ThrownError msg)
                         | Inr hits \<Rightarrow> Inr hits"]
          exI[of _ "[BridgeSearch (trim query) n]"])
       (use False in \<open>simp add: SearchService_searchChannels_def\<close>)
qed

lemma searchChannelsViaService_frame:
  "\<exists>r tr. \<forall>c cacheKey now. apiKey c = k \<and> maxResults c = m \<longrightarrow>
      fst (searchChannelsViaService w query cacheKey now c) = r
    \<and> calls (snd (searchChannelsViaService w query cacheKey now c)) = calls c @ tr"
proof -
  from SearchService_frame[of w query "min m 25"]
  obtain r1 t1 where s: "\<And>c. SearchService_searchChannels w query (min m 25) c
      = (r1, c\<lparr>calls := calls c @ t1\<rparr>)"
    by blast
  have s': "SearchService_searchChannels w query (min (maxResults c) 25) c
      = (r1, c\<lparr>calls := calls c @ t1\<rparr>)" if "maxResults c = m" for c
    using s[of c] that by simp
  show ?thesis
  proof (cases r1)
    case (Inl t)
    show ?thesis
    proof (intro exI[of _ "Inl (handleError t)"] exI[of _ t1] allI impI)
      fix c :: YouTubeAPIClient and cacheKey now
      assume a: "apiKey c = k \<and> maxResults c = m"
      then show "fst (searchChannelsViaService w query cacheKey now c) = Inl (handleError t)
          \<and> calls (snd (searchChannelsViaService w query cacheKey now c)) = calls c @ t1"
        using Inl by (simp add: searchChannelsViaService_def s s')
    qed
  next
    case (Inr hits)
    show ?thesis
    proof (cases "length hits = 0")
      case True
      show ?thesis
      proof (intro exI[of _ "Inr []"] exI[of _ t1] allI impI)
        fix c :: YouTubeAPIClient and cacheKey now
        assume a: "apiKey c = k \<and> maxResults c = m"
        then show "fst (searchChannelsViaService w query cacheKey now c) = Inr []
            \<and> calls (snd (searchChannelsViaService w query cacheKey now c)) = calls c @ t1"
          using Inr True by (simp add: searchChannelsViaService_def s s')
      qed
    next
      case False
      from getVideoDetails_frame[of k w "extractVideoIds hits"]
      obtain r2 t2 where d: "\<And>c. apiKey c = k \<Longrightarrow>
          getVideoDetails w (extractVideoIds hits) c = (r2, c\<lparr>calls := calls c @ t2\<rparr>)"
        by blast
      show ?thesis
      proof (cases r2)
        case (Inl e)
        show ?thesis
        proof (intro exI[of _ "Inl e"] exI[of _ "t1 @ t2"] allI impI)
          fix c :: YouTubeAPIClient and cacheKey now
          assume a: "apiKey c = k \<and> maxResults c = m"
          then have "getVideoDetails w (extractVideoIds hits) (c\<lparr>calls := calls c @ t1\<rparr>)
              = (r2, c\<lparr>calls := calls c @ t1 @ t2\<rparr>)"
            using d[of "c\<lparr>calls := calls c @ t1\<rparr>"] by simp
          with a show "fst (searchChannelsViaService w query cacheKey now c) = Inl e
              \<and> calls (snd (searchChannelsViaService w query cacheKey now c)) = calls c @ t1 @ t2"
            using Inr False Inl by (simp add: searchChannelsViaService_def s s')
        qed
      next
        case vids: (Inr videoDetails)
        let ?cids = "uniqueInOrder (map v_channelId videoDetails)"
        show ?thesis
        proof (cases "length ?cids = 0")
          case True
          show ?thesis
          proof (intro exI[of _ "Inr []"] exI[of _ "t1 @ t2"] allI impI)
            fix c :: YouTubeAPIClient and cacheKey now
            assume a: "apiKey c = k \<and> maxResults c = m"
            then have "getVideoDetails w (extractVideoIds hits) (c\<lparr>calls := calls c @ t1\<rparr>)
                = (r2, c\<lparr>calls := calls c @ t1 @ t2\<rparr>)"
              using d[of "c\<lparr>calls := calls c @ t1\<rparr>"] by simp
            with a show "fst (searchChannelsViaService w query cacheKey now c) = Inr []
                \<and> calls (snd (searchChannelsViaService w query cacheKey now c)) = calls c @ t1 @ t2"
              using Inr False vids True by (simp add: searchChannelsViaService_def s s' Let_def)
          qed
        next
          case nz: False
          from getChannelsByIds_frame[of k w ?cids]
          obtain r3 t3 where g: "\<And>c. apiKey c = k \<Longrightarrow>
              getChannelsByIds w ?cids c = (r3, c\<lparr>calls := calls c @ t3\<rparr>)"
            by blast
          show ?thesis
          proof (intro exI[of _ "case r3 of Inl e \<Rightarrow> Inl e
                  | Inr channels \<Rightarrow> Inr (sortByRelevance (channelRelevanceMap hits videoDetails) channels)"]
                exI[of _ "t1 @ t2 @ t3"] allI impI)
            fix c :: YouTubeAPIClient and cacheKey now
            assume a: "apiKey c = k \<and> maxResults c = m"
            then have 2: "getVideoDetails w (extractVideoIds hits) (c\<lparr>calls := calls c @ t1\<rparr>)
                = (r2, c\<lparr>calls := calls c @ t1 @ t2\<rparr>)"
              using d[of "c\<lparr>calls := calls c @ t1\<rparr>"] by simp
            from a have 3: "getChannelsByIds w ?cids (c\<lparr>calls := calls c @ t1 @ t2\<rparr>)
                = (r3, c\<lparr>calls := calls c @ t1 @ t2 @ t3\<rparr>)"
              using g[of "c\<lparr>calls := calls c @ t1 @ t2\<rparr>"] by simp
            from a 2 3 show "fst (searchChannelsViaService w query cacheKey now c)
                  = (case r3 of Inl e \<Rightarrow> Inl e
                     | Inr channels \<Rightarrow> Inr (sortByRelevance (channelRelevanceMap hits videoDetails) channels))
                \<and> calls (snd (searchChannelsViaService w query cacheKey now c)) = calls c @ t1 @ t2 @ t3"
              using Inr False vids nz
              by (cases r3) (simp_all add: searchChannelsViaService_def s s' Let_def)
          qed
        qed
      qed
    qed
  qed
qed

lemma afterBridgeAttempt_again:
  assumes r: "reachesNative w query now c" and r': "reachesNative w query later c'"
    and k: "apiKey c' = apiKey c" "maxResults c' = maxResults c" "bridgeEnabled c' = bridgeEnabled c"
  shows "newCalls c' (afterBridgeAttempt w query later c') = newCalls c (afterBridgeAttempt w query now c)"
proof -
  let ?key = "searchCacheKey query"
  obtain cache1 where gv: "getVideos ?key now (cache c) = (None, cache1)"
    using r by (cases "getVideos ?key now (cache c)") (auto simp: reachesNative_def searchMisses_def)
  obtain cache1' where gv': "getVideos ?key later (cache c') = (None, cache1')"
    using r' by (cases "getVideos ?key later (cache c')") (auto simp: reachesNative_def searchMisses_def)
  have nb: "length (trim query) \<noteq> 0"
    using r by (simp add: reachesNative_def searchMisses_def)
  from searchChannelsViaService_frame[of "apiKey c" "maxResults c" w query]
  obtain rb tb where fr: "\<And>x cacheKey t. apiKey x = apiKey c \<Longrightarrow> maxResults x = maxResults c \<Longrightarrow>
        calls (snd (searchChannelsViaService w query cacheKey t x)) = calls x @ tb"
    by blast
  let ?p = "c\<lparr>cache := cache1, calls := calls c @ [HealthProbe]\<rparr>"
  let ?p' = "c'\<lparr>cache := cache1', calls := calls c' @ [HealthProbe]\<rparr>"
  have 1: "calls (snd (searchChannelsViaService w query ?key now ?p)) = calls c @ HealthProbe # tb"
    using fr[of ?p ?key now] by simp
  have 2: "calls (snd (searchChannelsViaService w query ?key later ?p')) = calls c' @ HealthProbe # tb"
    using fr[of ?p' ?key later] k by simp
  show ?thesis
    using gv gv' nb k(3) 1 2
    by (auto simp: afterBridgeAttempt_def bridgeEnabled_def Let_def isHealthy_eq newCalls_def
        split: bool.splits)
qed

lemma native_zero_hits:
  assumes r: "reachesNative w query now c"
    and z: "api_search w (apiKey c) query (min (maxResults c) 25) = Inr (Body fs (ItemsArray []))"
  shows "searchChannels w query now c
         = (Inr (ChannelArr []),
            (afterBridgeAttempt w query now c)
              \<lparr>calls := calls (afterBridgeAttempt w query now c)
                         @ [ProviderSearch (apiKey c) query (min (maxResults c) 25)]\<rparr>)"
proof -
  let ?s = "afterBridgeAttempt w query now c"
  from singleKey_afterBridgeAttempt[of c "()" w query now]
  have k: "apiKey ?s = apiKey c" "maxResults ?s = maxResults c"
    by (simp_all add: singleKey_def sameConfig_def)
  from z k have "api_search w (apiKey ?s) query (min (maxResults ?s) 25) = Inr (Body fs (ItemsArray []))"
    by simp
  from searchChannelsViaAPI_zero_hits[OF this, of "searchCacheKey query" now] k
  show ?thesis
    unfolding searchChannels_reaches(1)[OF r] by (simp add: asChannelArray_def)
qed

lemma native_zero_hits_repeat:
  assumes r: "reachesNative w query now c"
    and z: "api_search w (apiKey c) query (min (maxResults c) 25) = Inr (Body fs (ItemsArray []))"
  shows "map_of (videoCache (cache (snd (searchChannels w query now c)))) (searchCacheKey query) = None"
    and "reachesNative w query later (snd (searchChannels w query now c))"
    and "fst (searchChannels w query later (snd (searchChannels w query now c))) = Inr (ChannelArr [])"
    and "newCalls (snd (searchChannels w query now c))
           (snd (searchChannels w query later (snd (searchChannels w query now c))))
         = newCalls c (snd (searchChannels w query now c))"
    and "calls (snd (searchChannels w query later (snd (searchChannels w query now c))))
         = calls (snd (searchChannels w query now c)) @ newCalls c (snd (searchChannels w query now c))"
proof -
  let ?key = "searchCacheKey query"
  let ?n = "min (maxResults c) 25"
  let ?s = "afterBridgeAttempt w query now c"
  let ?c' = "?s\<lparr>calls := calls ?s @ [ProviderSearch (apiKey c) query ?n]\<rparr>"
  note first = native_zero_hits[OF r z]
  have miss: "fst (getVideos ?key now (cache c)) = None" and nb: "length (trim query) \<noteq> 0"
    using r by (simp_all add: reachesNative_def searchMisses_def)
  have cs: "cache ?s = snd (getVideos ?key now (cache c))"
    by (rule searchChannels_reaches(2)[OF r])
  have absent: "map_of (videoCache (cache ?c')) ?key = None"
    using getVideos_miss_absent[OF miss] cs by simp
  show "map_of (videoCache (cache (snd (searchChannels w query now c)))) ?key = None"
    unfolding first using absent by simp
  from singleKey_afterBridgeAttempt[of c "()" w query now]
  have sk: "calls ?s = calls c @ newCalls c ?s" and k: "apiKey ?c' = apiKey c" "maxResults ?c' = maxResults c"
    "bridgeEnabled ?c' = bridgeEnabled c"
    by (simp_all add: singleKey_def sameConfig_def bridgeEnabled_def)
  have miss': "searchMisses query later ?c'"
    using nb absent by (simp add: searchMisses_def getVideos_absent)
  have r': "reachesNative w query later ?c'"
  proof -
    from searchChannelsViaService_frame[of "apiKey c" "maxResults c" w query]
    obtain rb tb where fr: "\<And>x cacheKey t. apiKey x = apiKey c \<Longrightarrow> maxResults x = maxResults c \<Longrightarrow>
        fst (searchChannelsViaService w query cacheKey t x) = rb"
      by blast
    have "fst (searchChannelsViaService w query ?key later (afterProbe query later ?c'))
        = fst (searchChannelsViaService w query ?key now (afterProbe query now c))"
      using fr[of "afterProbe query later ?c'" ?key later] fr[of "afterProbe query now c" ?key now] k
      by (simp add: afterProbe_def)
    with r miss' k(3) show ?thesis
      by (simp add: reachesNative_def)
  qed
  show "reachesNative w query later (snd (searchChannels w query now c))"
    unfolding first using r' by simp
  from z k have z': "api_search w (apiKey ?c') query (min (maxResults ?c') 25) = Inr (Body fs (ItemsArray []))"
    by simp
  note second = native_zero_hits[OF r' z']
  let ?s' = "afterBridgeAttempt w query later ?c'"
  from singleKey_afterBridgeAttempt[of ?c' "()" w query later]
  have sk': "calls ?s' = calls ?c' @ newCalls ?c' ?s'"
    by (simp add: singleKey_def)
  have again: "newCalls ?c' ?s' = newCalls c ?s"
    by (rule afterBridgeAttempt_again[OF r r' k])
  have n1: "newCalls c ?c' = newCalls c ?s @ [ProviderSearch (apiKey c) query ?n]"
    by (rule newCalls_append) (use sk in simp)
  show "fst (searchChannels w query later (snd (searchChannels w query now c))) = Inr (ChannelArr [])"
    unfolding first snd_conv second by simp
  have c2: "calls (snd (searchChannels w query later ?c'))
      = calls ?c' @ (newCalls c ?s @ [ProviderSearch (apiKey c) query ?n])"
    unfolding second using sk' again k by simp
  show "calls (snd (searchChannels w query later (snd (searchChannels w query now c))))
         = calls (snd (searchChannels w query now c)) @ newCalls c (snd (searchChannels w query now c))"
    unfolding first snd_conv using c2 n1 by simp
  then show "newCalls (snd (searchChannels w query now c))
           (snd (searchChannels w query later (snd (searchChannels w query now c))))
         = newCalls c (snd (searchChannels w query now c))"
    by (rule newCalls_append)
qed


lemma searchChannelsViaService_blank:
  "length (trim query) = 0 \<Longrightarrow>
     snd (searchChannelsViaService w query cacheKey now c) = c"
  by (simp add: searchChannelsViaService_def SearchService_searchChannels_def)

lemma run_searchChannelsViaService:
  assumes nb: "length (trim query) \<noteq> 0"
  shows "run False w c (searchChannelsViaService w query cacheKey now c)"
proof -
  let ?n = "min (maxResults c) 25"
  let ?call = "BridgeSearch (trim query) ?n"
  let ?c1 = "c\<lparr>calls := calls c @ [?call]\<rparr>"
  have u: "usesKey (apiKey c) ?call" by (simp add: usesKey_def)
  have ss: "SearchService_searchChannels w query ?n c
      = (case bridge_search w (trim query) ?n of Inl msg \<Rightarrow> Inl (ThrownError msg)
         | Inr hits \<Rightarrow> Inr hits, ?c1)"
    using nb by (simp add: SearchService_searchChannels_def)
  show ?thesis
  proof (cases "bridge_search w (trim query) ?n")
    case (Inl msg)
    then have "callFailure w ?call = Some (handleError (ThrownError msg))"
      by (simp add: callFailure_def)
    with run_one[OF u, of w "[]"] Inl show ?thesis
      by (simp add: searchChannelsViaService_def ss)
  next
    case (Inr hits)
    then have clean: "callFailure w ?call = None"
      by (simp add: callFailure_def)
    with run_one[OF u, of w "()"] have 1: "run False w c (Inr (), ?c1)" by simp
    show ?thesis
    proof (cases "length hits = 0")
      case True
      with run_one[OF u, of w "[]"] clean Inr show ?thesis
        by (simp add: searchChannelsViaService_def ss)
    next
      case False
      obtain r2 c2 where d: "getVideoDetails w (extractVideoIds hits) ?c1 = (r2, c2)"
        by (cases "getVideoDetails w (extractVideoIds hits) ?c1")
      have 2: "run False w c (r2, c2)"
        using run_seq[OF 1 run_getVideoDetails[of w ?c1 "extractVideoIds hits"]] d by simp
      show ?thesis
      proof (cases r2)
        case (Inl e)
        with 2 have "run False w c (Inl e :: APIError + Channel list, c2)"
          by (simp add: run_def singleKey_def)
        with Inr False d Inl show ?thesis
          by (simp add: searchChannelsViaService_def ss)
      next
        case vids: (Inr videoDetails)
        let ?cids = "uniqueInOrder (map v_channelId videoDetails)"
        from 2 vids have 2: "run False w c (Inr videoDetails, c2)" by simp
        show ?thesis
        proof (cases "length ?cids = 0")
          case True
          from 2 have "run False w c (Inr [] :: APIError + Channel list, c2)"
            by (simp add: run_def singleKey_def)
          with Inr False d vids True show ?thesis
            by (simp add: searchChannelsViaService_def ss Let_def)
        next
          case nz: False
          obtain r3 c3 where g: "getChannelsByIds w ?cids c2 = (r3, c3)"
            by (cases "getChannelsByIds w ?cids c2")
          have 3: "run False w c (r3, c3)"
            using run_seq[OF 2 run_getChannelsByIds[of w c2 ?cids]] g by simp
          show ?thesis
          proof (cases r3)
            case (Inl e)
            with 3 Inr False d vids nz g show ?thesis
              by (simp add: searchChannelsViaService_def ss Let_def)
          next
            case chans: (Inr channels)
            with 3 have "run False w c
                (Inr (sortByRelevance (channelRelevanceMap hits videoDetails) channels), c3)"
              by (simp add: run_def singleKey_def)
            from run_cache_post[OF this] Inr False d vids nz g chans show ?thesis
              by (simp add: searchChannelsViaService_def ss Let_def)
          qed
        qed
      qed
    qed
  qed
qed

lemma quotaStops_searchChannelsViaService:
  "quotaStops w c (searchChannelsViaService w query cacheKey now c) x msg"
proof (cases "length (trim query) = 0")
  case True
  show ?thesis
    by (rule quotaStops_nothing) (simp add: searchChannelsViaService_blank[OF True] newCalls_def)
next
  case False
  from run_quotaStops[OF run_searchChannelsViaService[OF False]] show ?thesis .
qed

lemma quotaStops_getChannelInfo:
  "quotaStops w c (getChannelInfo w channelId now c) x msg"
proof (cases "length (trim channelId) = 0")
  case True
  show ?thesis
    by (rule quotaStops_nothing) (simp add: getChannelInfo_blank[OF True] newCalls_def)
next
  case False
  from run_quotaStops[OF run_getChannelInfo[OF False]] show ?thesis .
qed

lemma quotaStops_getChannelVideos:
  "quotaStops w c (getChannelVideos w channelId limit now c) x msg"
proof (cases "length (trim channelId) = 0")
  case True
  show ?thesis
    by (rule quotaStops_nothing) (simp add: getChannelVideos_blank[OF True] newCalls_def)
next
  case False
  from run_quotaStops[OF run_getChannelVideos[OF False]] show ?thesis .
qed

lemma afterBridgeAttempt_blank:
  "length (trim query) = 0 \<Longrightarrow> afterBridgeAttempt w query now c = c"
  by (simp add: afterBridgeAttempt_def)

lemma quotaStops_searchChannels:
  "quotaStops w (afterBridgeAttempt w query now c) (searchChannels w query now c) x msg"
proof (cases "length (trim query) = 0")
  case True
  show ?thesis
    by (rule quotaStops_nothing)
       (simp add: searchChannels_blank[OF True] afterBridgeAttempt_blank[OF True] newCalls_def)
next
  case False
  from run_quotaStops[OF run_searchChannels[OF False]] show ?thesis .
qed

lemma afterBridgeAttempt_no_bridge:
  "\<not> bridgeEnabled c \<Longrightarrow> calls (afterBridgeAttempt w query now c) = calls c"
  by (auto simp: afterBridgeAttempt_def bridgeEnabled_def Let_def split: prod.splits option.splits)

lemma singleKey_getChannelInfo: "singleKey c (getChannelInfo w channelId now c)"
proof (cases "length (trim channelId) = 0")
  case True
  show ?thesis
    by (simp add: getChannelInfo_blank[OF True] singleKey_def newCalls_def)
next
  case False
  from run_singleKey[OF run_getChannelInfo[OF False]] show ?thesis .
qed

lemma singleKey_getChannelVideos: "singleKey c (getChannelVideos w channelId limit now c)"
proof (cases "length (trim channelId) = 0")
  case True
  show ?thesis
    by (simp add: getChannelVideos_blank[OF True] singleKey_def newCalls_def)
next
  case False
  from run_singleKey[OF run_getChannelVideos[OF False]] show ?thesis .
qed

lemma surfaced_getChannelInfo:
  assumes "fst (getChannelInfo w channelId now c) = Inl e"
  shows "(retryable e \<longleftrightarrow> code e \<notin> {400, 403, 404})
       \<and> (if length (trim channelId) = 0 then e = blankChannelIdError
          else surfaces w True (newCalls c (snd (getChannelInfo w channelId now c))) e)"
proof (cases "length (trim channelId) = 0")
  case True
  with assms show ?thesis
    by (auto simp: getChannelInfo_blank blankChannelIdError_def)
next
  case False
  from run_surfaces[OF run_getChannelInfo[OF False] assms] surfaces_flags False show ?thesis
    by auto
qed

lemma surfaced_getChannelVideos:
  assumes "fst (getChannelVideos w channelId limit now c) = Inl e"
  shows "(retryable e \<longleftrightarrow> code e \<notin> {400, 403, 404})
       \<and> (if length (trim channelId) = 0 then e = blankChannelIdError
          else surfaces w True (newCalls c (snd (getChannelVideos w channelId limit now c))) e)"
proof (cases "length (trim channelId) = 0")
  case True
  with assms show ?thesis
    by (auto simp: getChannelVideos_blank blankChannelIdError_def)
next
  case False
  from run_surfaces[OF run_getChannelVideos[OF False] assms] surfaces_flags False show ?thesis
    by auto
qed

lemma surfaced_getVideoDetails:
  assumes "fst (getVideoDetails w videoIds c) = Inl e"
  shows "(retryable e \<longleftrightarrow> code e \<notin> {400, 403, 404})
       \<and> surfaces w False (newCalls c (snd (getVideoDetails w videoIds c))) e"
  using run_surfaces[OF run_getVideoDetails assms] surfaces_flags by auto

lemma surfaced_searchChannels:
  assumes "fst (searchChannels w query now c) = Inl e"
  shows "(retryable e \<longleftrightarrow> code e \<notin> {400, 403, 404})
       \<and> (if length (trim query) = 0 then e = blankQueryError
          else surfaces w False (newCalls c (snd (searchChannels w query now c))) e)"
proof (cases "length (trim query) = 0")
  case True
  with assms show ?thesis
    by (auto simp: searchChannels_blank blankQueryError_def)
next
  case False
  let ?s = "afterBridgeAttempt w query now c"
  let ?r = "searchChannels w query now c"
  from run_surfaces[OF run_searchChannels[OF False] assms]
  have s: "surfaces w False (newCalls ?s (snd ?r)) e" .
  from run_searchChannels[OF False, of w now c]
  have e2: "calls (snd ?r) = calls ?s @ newCalls ?s (snd ?r)"
    by (simp add: run_def singleKey_def)
  from singleKey_afterBridgeAttempt[of c "()" w query now]
  have e1: "calls ?s = calls c @ newCalls c ?s" by (simp add: singleKey_def)
  have n: "newCalls c (snd ?r) = newCalls c ?s @ newCalls ?s (snd ?r)"
    by (rule newCalls_append) (use e1 e2 in simp)
  from s have "surfaces w False (newCalls c (snd ?r)) e"
    unfolding n by (auto simp: surfaces_def split: option.splits)
  with surfaces_flags False show ?thesis by auto
qed

lemma callError_failure:
  "callError w x = Some a \<Longrightarrow> callFailure w x = Some (handleError (ThrownAxios a))"
  by (auto simp: callError_def callFailure_def responseError_def responseFailure_def
      split: outbound.splits sum.splits)

lemma callFailure_no_error:
  assumes "callError w x = None" and "callFailure w x = Some e"
  shows "code e = 500 \<and> retryable e"
proof -
  have r: "code e = 500 \<and> retryable e"
    if "responseError (a :: AxiosError + 'i api_body) = None" "responseFailure a = Some e" for a
    using that validateResponse_failure
    by (auto simp: responseError_def responseFailure_def split: sum.splits)
  from assms show ?thesis
    by (auto simp: callError_def callFailure_def handleError_def createAPIError_def
        split: outbound.splits sum.splits dest: r)
qed

lemma reachesNative_no_bridge:
  "searchMisses query now c \<Longrightarrow> \<not> bridgeEnabled c \<Longrightarrow> reachesNative w query now c"
  by (simp add: reachesNative_def)

lemma reachesNative_unhealthy:
  "searchMisses query now c \<Longrightarrow> bridge_health w \<noteq> Some True \<Longrightarrow> reachesNative w query now c"
  by (simp add: reachesNative_def)

lemma afterBridgeAttempt_unhealthy:
  assumes "searchMisses query now c" and "bridgeEnabled c" and "bridge_health w \<noteq> Some True"
  shows "calls (afterBridgeAttempt w query now c) = calls c @ [HealthProbe]"
  using assms
  by (cases "getVideos (searchCacheKey query) now (cache c)")
     (auto simp: afterBridgeAttempt_def searchMisses_def bridgeEnabled_def Let_def isHealthy_eq)

lemma native_zero_hits_everywhere:
  assumes r: "reachesNative w query now c"
    and z: "api_search w (apiKey c) query (min (maxResults c) 25) = Inr (Body fs (ItemsArray []))"
  shows "searchChannels w query now c
          = (Inr (ChannelArr []),
             (afterBridgeAttempt w query now c)
               \<lparr>calls := calls (afterBridgeAttempt w query now c)
                          @ [ProviderSearch (apiKey c) query (min (maxResults c) 25)]\<rparr>)
      \<and> cache (afterBridgeAttempt w query now c) = snd (getVideos (searchCacheKey query) now (cache c))
      \<and> map_of (videoCache (cache (snd (searchChannels w query now c)))) (searchCacheKey query) = None
      \<and> fst (searchChannels w query later (snd (searchChannels w query now c))) = Inr (ChannelArr [])
      \<and> calls (snd (searchChannels w query later (snd (searchChannels w query now c))))
          = calls (snd (searchChannels w query now c)) @ newCalls c (snd (searchChannels w query now c))"
  using native_zero_hits[OF r z] searchChannels_reaches(2)[OF r]
    native_zero_hits_repeat(1)[OF r z] native_zero_hits_repeat(3,5)[OF r z, of later]
  by simp

lemma native_zero_hits_plain:
  assumes m: "searchMisses query now c" and b: "\<not> bridgeEnabled c"
    and z: "api_search w (apiKey c) query (min (maxResults c) 25) = Inr (Body fs (ItemsArray []))"
  shows "fst (searchChannels w query now c) = Inr (ChannelArr [])
      \<and> map_of (videoCache (cache (snd (searchChannels w query now c)))) (searchCacheKey query) = None
      \<and> calls (snd (searchChannels w query now c))
          = calls c @ [ProviderSearch (apiKey c) query (min (maxResults c) 25)]
      \<and> fst (searchChannels w query later (snd (searchChannels w query now c))) = Inr (ChannelArr [])
      \<and> calls (snd (searchChannels w query later (snd (searchChannels w query now c))))
          = calls c @ [ProviderSearch (apiKey c) query (min (maxResults c) 25),
                       ProviderSearch (apiKey c) query (min (maxResults c) 25)]"
proof -
  note r = reachesNative_no_bridge[OF m b, where w = w]
  note g = native_zero_hits_everywhere[OF r z, of later]
  have s: "calls (afterBridgeAttempt w query now c) = calls c"
    by (rule afterBridgeAttempt_no_bridge[OF b])
  from g have "searchChannels w query now c
          = (Inr (ChannelArr []),
             (afterBridgeAttempt w query now c)
               \<lparr>calls := calls (afterBridgeAttempt w query now c)
                          @ [ProviderSearch (apiKey c) query (min (maxResults c) 25)]\<rparr>)"
    by blast
  then have c1: "calls (snd (searchChannels w query now c))
      = calls c @ [ProviderSearch (apiKey c) query (min (maxResults c) 25)]"
    using s by simp
  have n: "newCalls c (snd (searchChannels w query now c))
      = [ProviderSearch (apiKey c) query (min (maxResults c) 25)]"
    by (rule newCalls_append[OF c1])
  from g have "calls (snd (searchChannels w query later (snd (searchChannels w query now c))))
          = calls (snd (searchChannels w query now c)) @ newCalls c (snd (searchChannels w query now c))"
    by blast
  then have c2: "calls (snd (searchChannels w query later (snd (searchChannels w query now c))))
          = calls c @ [ProviderSearch (apiKey c) query (min (maxResults c) 25),
                       ProviderSearch (apiKey c) query (min (maxResults c) 25)]"
    unfolding n c1 by simp
  from g have f1: "fst (searchChannels w query now c) = Inr (ChannelArr [])"
    by simp
  from g have "map_of (videoCache (cache (snd (searchChannels w query now c)))) (searchCacheKey query) = None"
    and "fst (searchChannels w query later (snd (searchChannels w query now c))) = Inr (ChannelArr [])"
    by blast+
  with f1 c1 c2 show ?thesis by blast
qed

lemma native_zero_hits_unhealthy:
  assumes m: "searchMisses query now c" and b: "bridgeEnabled c" and h: "bridge_health w \<noteq> Some True"
    and z: "api_search w (apiKey c) query (min (maxResults c) 25) = Inr (Body fs (ItemsArray []))"
  shows "fst (searchChannels w query now c) = Inr (ChannelArr [])
      \<and> map_of (videoCache (cache (snd (searchChannels w query now c)))) (searchCacheKey query) = None
      \<and> calls (snd (searchChannels w query now c))
          = calls c @ [HealthProbe, ProviderSearch (apiKey c) query (min (maxResults c) 25)]
      \<and> fst (searchChannels w query later (snd (searchChannels w query now c))) = Inr (ChannelArr [])
      \<and> calls (snd (searchChannels w query later (snd (searchChannels w query now c))))
          = calls c @ [HealthProbe, ProviderSearch (apiKey c) query (min (maxResults c) 25),
                       HealthProbe, ProviderSearch (apiKey c) query (min (maxResults c) 25)]"
proof -
  note r = reachesNative_unhealthy[OF m h]
  note g = native_zero_hits_everywhere[OF r z, of later]
  have s: "calls (afterBridgeAttempt w query now c) = calls c @ [HealthProbe]"
    by (rule afterBridgeAttempt_unhealthy[OF m b h])
  from g have "searchChannels w query now c
          = (Inr (ChannelArr []),
             (afterBridgeAttempt w query now c)
               \<lparr>calls := calls (afterBridgeAttempt w query now c)
                          @ [ProviderSearch (apiKey c) query (min (maxResults c) 25)]\<rparr>)"
    by blast
  then have c1: "calls (snd (searchChannels w query now c))
      = calls c @ [HealthProbe, ProviderSearch (apiKey c) query (min (maxResults c) 25)]"
    using s by simp
  have n: "newCalls c (snd (searchChannels w query now c))
      = [HealthProbe, ProviderSearch (apiKey c) query (min (maxResults c) 25)]"
    by (rule newCalls_append[OF c1])
  from g have "calls (snd (searchChannels w query later (snd (searchChannels w query now c))))
          = calls (snd (searchChannels w query now c)) @ newCalls c (snd (searchChannels w query now c))"
    by blast
  then have c2: "calls (snd (searchChannels w query later (snd (searchChannels w query now c))))
          = calls c @ [HealthProbe, ProviderSearch (apiKey c) query (min (maxResults c) 25),
                       HealthProbe, ProviderSearch (apiKey c) query (min (maxResults c) 25)]"
    unfolding n c1 by simp
  from g have f1: "fst (searchChannels w query now c) = Inr (ChannelArr [])"
    by simp
  from g have "map_of (videoCache (cache (snd (searchChannels w query now c)))) (searchCacheKey query) = None"
    and "fst (searchChannels w query later (snd (searchChannels w query now c))) = Inr (ChannelArr [])"
    by blast+
  with f1 c1 c2 show ?thesis by blast
qed

lemma bridge_zero_hits_facts:
  assumes "searchMisses query now c" and "bridgeEnabled c" and "bridge_health w = Some True"
    and "bridge_search w (trim query) (min (maxResults c) 25) = Inr []"
  shows "fst (searchChannels w query now c) = Inr (ChannelArr [])
      \<and> map_of (videoCache (cache (snd (searchChannels w query now c)))) (searchCacheKey query) = None
      \<and> calls (snd (searchChannels w query now c))
          = calls c @ [HealthProbe, BridgeSearch (trim query) (min (maxResults c) 25)]
      \<and> fst (searchChannels w query later (snd (searchChannels w query now c))) = Inr (ChannelArr [])
      \<and> calls (snd (searchChannels w query later (snd (searchChannels w query now c))))
          = calls c @ [HealthProbe, BridgeSearch (trim query) (min (maxResults c) 25),
                       HealthProbe, BridgeSearch (trim query) (min (maxResults c) 25)]"
proof -
  from assms have m: "length (trim query) \<noteq> 0"
    "fst (getVideos (searchCacheKey query) now (cache c)) = None"
    by (simp_all add: searchMisses_def)
  from assms have b: "searchService c \<noteq> None \<and> useSearchService c \<and> bridge_health w = Some True
        \<and> bridge_search w (trim query) (min (maxResults c) 25) = Inr []"
    by (simp add: bridgeEnabled_def)
  from empty_result_not_cached[OF m, where w = w and later = later] b
  show ?thesis by blast
qed

lemmas quota_eval =
  singleKey_def quotaStops_def newCalls_def usesKey_def sameConfig_def quotaAnswer_def callError_def
  responseError_def quotaSignal_def quotaExceededError_def afterBridgeAttempt_def bridgeEnabled_def
  quotaMessage_def

lemmas failure_eval =
  surfaces_def newCalls_def callFailure_def responseFailure_def callError_def responseError_def
  noSuchChannel_def channelNotFoundError_def blankQueryError_def blankChannelIdError_def

section \<open>Claims about the cache\<close>

text \<open>
  C2. For every key, value and ttl > 0: after \<^verbatim>\<open>setVideos\<close> (or \<^verbatim>\<open>setChannel\<close>) at time
  \<open>t0\<close>, a get at any time before \<open>t0 + ttl\<close> returns exactly the stored value and leaves
  the cache as it is; a get at any time from \<open>t0 + ttl\<close> (the entry's \<open>expiresAt\<close>) on
  returns null, the key is gone from the map afterwards, and the size query counts one
  entry less than before the get.
\<close>

theorem C2_cache_set_get:
  assumes "0 < ttl" and "cache_wf c"
  shows "(t0 \<le> t1 \<and> t1 < t0 + ttl \<longrightarrow>
            getVideos k t1 (setVideos k v (Some ttl) t0 c)
              = (Some v, setVideos k v (Some ttl) t0 c)
          \<and> getChannel k t1 (setChannel k ch (Some ttl) t0 c)
              = (Some ch, setChannel k ch (Some ttl) t0 c))
       \<and> (t0 + ttl \<le> t2 \<longrightarrow>
            fst (getVideos k t2 (setVideos k v (Some ttl) t0 c)) = None
          \<and> map_of (videoCache (snd (getVideos k t2 (setVideos k v (Some ttl) t0 c)))) k = None
          \<and> Suc (getVideoCacheSize (snd (getVideos k t2 (setVideos k v (Some ttl) t0 c))))
              = getVideoCacheSize (setVideos k v (Some ttl) t0 c)
          \<and> fst (getChannel k t2 (setChannel k ch (Some ttl) t0 c)) = None
          \<and> map_of (channelCache (snd (getChannel k t2 (setChannel k ch (Some ttl) t0 c)))) k = None
          \<and> Suc (getChannelCacheSize (snd (getChannel k t2 (setChannel k ch (Some ttl) t0 c))))
              = getChannelCacheSize (setChannel k ch (Some ttl) t0 c))"
proof (intro conjI impI)
  assume "t0 \<le> t1 \<and> t1 < t0 + ttl"
  then show "getVideos k t1 (setVideos k v (Some ttl) t0 c) = (Some v, setVideos k v (Some ttl) t0 c)"
    by (simp add: getVideos_fresh)
next
  assume "t0 \<le> t1 \<and> t1 < t0 + ttl"
  then show "getChannel k t1 (setChannel k ch (Some ttl) t0 c) = (Some ch, setChannel k ch (Some ttl) t0 c)"
    by (simp add: getChannel_fresh)
next
  assume e: "t0 + ttl \<le> t2"
  show "fst (getVideos k t2 (setVideos k v (Some ttl) t0 c)) = None"
    by (simp add: getVideos_expired[OF e])
  show "map_of (videoCache (snd (getVideos k t2 (setVideos k v (Some ttl) t0 c)))) k = None"
    by (simp add: getVideos_expired[OF e] delete_conv')
  show "Suc (getVideoCacheSize (snd (getVideos k t2 (setVideos k v (Some ttl) t0 c))))
          = getVideoCacheSize (setVideos k v (Some ttl) t0 c)"
    using videoCache_size_after_set[OF assms(2), of k v "Some ttl" t0]
    by (simp add: getVideos_expired[OF e] getVideoCacheSize_def)
  show "fst (getChannel k t2 (setChannel k ch (Some ttl) t0 c)) = None"
    by (simp add: getChannel_expired[OF e])
  show "map_of (channelCache (snd (getChannel k t2 (setChannel k ch (Some ttl) t0 c)))) k = None"
    by (simp add: getChannel_expired[OF e] delete_conv')
  show "Suc (getChannelCacheSize (snd (getChannel k t2 (setChannel k ch (Some ttl) t0 c))))
          = getChannelCacheSize (setChannel k ch (Some ttl) t0 c)"
    using channelCache_size_after_set[OF assms(2), of k ch "Some ttl" t0]
    by (simp add: getChannel_expired[OF e] getChannelCacheSize_def)
qed

theorem C2_cache_set_get_witness:
  "(0::nat) < 1000 \<and> cache_wf (APICache_new None :: (nat, nat) APICache)
   \<and> getVideos ''search:cats'' 10 (setVideos ''search:cats'' (7::nat) (Some 1000) 5 (APICache_new None :: (nat, nat) APICache))
       = (Some 7, setVideos ''search:cats'' 7 (Some 1000) 5 (APICache_new None))
   \<and> fst (getVideos ''search:cats'' 1005 (setVideos ''search:cats'' (7::nat) (Some 1000) 5 (APICache_new None :: (nat, nat) APICache))) = None
   \<and> getVideoCacheSize (snd (getVideos ''search:cats'' 1005 (setVideos ''search:cats'' (7::nat) (Some 1000) 5 (APICache_new None :: (nat, nat) APICache)))) = 0
   \<and> getVideoCacheSize (setVideos ''search:cats'' (7::nat) (Some 1000) 5 (APICache_new None :: (nat, nat) APICache)) = 1"
  using C2_cache_set_get[where ttl = 1000 and c = "APICache_new None :: (nat, nat) APICache"
      and ?t0.0 = 5 and ?t1.0 = 10 and ?t2.0 = 1005 and k = "''search:cats''" and v = "7::nat" and ch = "7::nat"]
  by (simp add: getVideoCacheSize_def getVideos_def setVideos_def APICache_new_def cache_wf_def)

section \<open>Claims about the key manager\<close>

text \<open>
  C3. A key whose status is \<^verbatim>\<open>quotaExhausted\<close> is never handed out by
  \<^verbatim>\<open>getCurrentKey\<close> or \<^verbatim>\<open>rotateKey\<close> and stays exhausted, whatever calls other than
  \<^verbatim>\<open>resetQuotaStatus\<close> are made in between (\<^verbatim>\<open>reportSuccess\<close> included), at whatever
  times and whatever its \<^verbatim>\<open>nextRetryTime\<close>; a quota-class \<^verbatim>\<open>reportError\<close> puts the current
  key in that state; \<^verbatim>\<open>resetQuotaStatus\<close> makes every exhausted key of the pool available
  again. Hence for a pool of N keys built by the constructor, N consecutive quota
  failures, each reported against the key \<^verbatim>\<open>getCurrentKey\<close> hands out, leave
  \<^verbatim>\<open>getCurrentKey\<close> returning null, and a following \<^verbatim>\<open>resetQuotaStatus\<close> restores all N
  keys. A key that is not quota-exhausted and gets a transient error is unavailable
  before its \<^verbatim>\<open>nextRetryTime\<close> and available again from that time on.
\<close>

theorem C3_quota_exhausted_until_reset:
  "(keyExhausted m k \<longrightarrow>
       Some k \<notin> set (fst (runCalls cs m))
     \<and> keyExhausted (snd (runCalls cs m)) k
     \<and> fst (getCurrentKey t (snd (runCalls cs m))) \<noteq> Some k
     \<and> fst (rotateKey t (snd (runCalls cs m))) \<noteq> Some k
     \<and> k \<notin> set (fst (getAvailableKeys t (snd (runCalls cs m)))))
 \<and> (nth_opt (apiKeys m2) (currentKeyIndex m2) = Some k2 \<and> map_of (keyStatuses m2) k2 = Some s2 \<longrightarrow>
       keyExhausted (reportError e True now mid m2) k2)
 \<and> (keyExhausted m3 k3 \<and> k3 \<in> set (apiKeys m3) \<longrightarrow>
       \<not> keyExhausted (resetQuotaStatus m3) k3
     \<and> k3 \<in> set (fst (getAvailableKeys t3 (resetQuotaStatus m3))))
 \<and> (APIKeyManager_new keys = Inr m0 \<longrightarrow>
       fst (getCurrentKey t4 (quotaFailures (length keys) now4 mid4 m0)) = None
     \<and> fst (getAvailableKeyCount t4 (quotaFailures (length keys) now4 mid4 m0)) = 0
     \<and> fst (getAvailableKeys t4 (resetQuotaStatus (quotaFailures (length keys) now4 mid4 m0))) = keys
     \<and> fst (getAvailableKeyCount t4 (resetQuotaStatus (quotaFailures (length keys) now4 mid4 m0)))
         = length keys)
 \<and> (nth_opt (apiKeys m5) (currentKeyIndex m5) = Some k5 \<and> map_of (keyStatuses m5) k5 = Some s5
      \<and> \<not> quotaExhausted s5 \<longrightarrow>
       (\<exists>s'. map_of (keyStatuses (reportError e5 False now5 mid5 m5)) k5 = Some s'
              \<and> nextRetryTime s' = Some (now5 + backoffDelay (Suc (consecutiveErrors s5))))
     \<and> (ta < now5 + backoffDelay (Suc (consecutiveErrors s5)) \<longrightarrow>
           k5 \<notin> set (fst (getAvailableKeys ta (reportError e5 False now5 mid5 m5))))
     \<and> (now5 + backoffDelay (Suc (consecutiveErrors s5)) \<le> tb \<longrightarrow>
           k5 \<in> set (fst (getAvailableKeys tb (reportError e5 False now5 mid5 m5)))))"
proof (intro conjI impI)
  assume ex: "keyExhausted m k"
  note r = runCalls_exhausted[OF ex, of cs]
  from r show "Some k \<notin> set (fst (runCalls cs m))" by simp
  from r show ex': "keyExhausted (snd (runCalls cs m)) k" by simp
  from ex' show "fst (getCurrentKey t (snd (runCalls cs m))) \<noteq> Some k"
    by (rule getCurrentKey_not_exhausted)
  from ex' show "fst (rotateKey t (snd (runCalls cs m))) \<noteq> Some k"
    by (rule rotateKey_not_exhausted)
  from ex' show "k \<notin> set (fst (getAvailableKeys t (snd (runCalls cs m))))"
    by (rule exhausted_not_available)
next
  assume "nth_opt (apiKeys m2) (currentKeyIndex m2) = Some k2 \<and> map_of (keyStatuses m2) k2 = Some s2"
  then show "keyExhausted (reportError e True now mid m2) k2"
    by (intro reportError_quota_exhausts) auto
next
  assume a: "keyExhausted m3 k3 \<and> k3 \<in> set (apiKeys m3)"
  then show "\<not> keyExhausted (resetQuotaStatus m3) k3"
    by (simp add: reset_makes_available(2))
  from a show "k3 \<in> set (fst (getAvailableKeys t3 (resetQuotaStatus m3)))"
    by (simp add: getAvailableKeys_fst reset_makes_available(1))
next
  assume "APIKeyManager_new keys = Inr m0"
  then have m0: "m0 = APIKeyManager_init keys"
    by (auto simp: APIKeyManager_new_def split: if_splits)
  have keys: "apiKeys m0 = keys" by (simp add: m0 APIKeyManager_init_def)
  have "keysSettled m0" unfolding m0 by (rule keysSettled_init)
  from quotaFailures_all_exhausted[OF this, of now4 mid4]
  have all: "exhaustedKeys (quotaFailures (length keys) now4 mid4 m0)
             = set (apiKeys (quotaFailures (length keys) now4 mid4 m0))"
    by (simp add: keys)
  from all_exhausted_none_available[OF all]
  show "fst (getCurrentKey t4 (quotaFailures (length keys) now4 mid4 m0)) = None"
    and "fst (getAvailableKeyCount t4 (quotaFailures (length keys) now4 mid4 m0)) = 0"
    by (simp_all add: getAvailableKeyCount_def case_prod_beta)
  from reset_restores_all[OF all, of t4]
  show "fst (getAvailableKeys t4 (resetQuotaStatus (quotaFailures (length keys) now4 mid4 m0))) = keys"
    and "fst (getAvailableKeyCount t4 (resetQuotaStatus (quotaFailures (length keys) now4 mid4 m0)))
         = length keys"
    by (simp_all add: keys getAvailableKeyCount_def case_prod_beta)
next
  assume a: "nth_opt (apiKeys m5) (currentKeyIndex m5) = Some k5 \<and> map_of (keyStatuses m5) k5 = Some s5
      \<and> \<not> quotaExhausted s5"
  then have ptr: "nth_opt (apiKeys m5) (currentKeyIndex m5) = Some k5"
    and st: "map_of (keyStatuses m5) k5 = Some s5" and nq: "\<not> quotaExhausted s5" by auto
  show "\<exists>s'. map_of (keyStatuses (reportError e5 False now5 mid5 m5)) k5 = Some s'
              \<and> nextRetryTime s' = Some (now5 + backoffDelay (Suc (consecutiveErrors s5)))"
    by (simp add: reportError_transient_status[OF ptr st])
  show "k5 \<notin> set (fst (getAvailableKeys ta (reportError e5 False now5 mid5 m5)))"
    if "ta < now5 + backoffDelay (Suc (consecutiveErrors s5))"
    using transient_backoff_window(1)[OF ptr st nq that] .
  show "k5 \<in> set (fst (getAvailableKeys tb (reportError e5 False now5 mid5 m5)))"
    if "now5 + backoffDelay (Suc (consecutiveErrors s5)) \<le> tb"
    using transient_backoff_window(2)[OF ptr st nq that] .
qed

theorem C3_quota_exhausted_until_reset_witness:
  "keyExhausted (reportError ''quotaExceeded'' True 100 86400000 (APIKeyManager_init [''K1'', ''K2''])) ''K1''
 \<and> fst (runCalls [CallReportSuccess, CallGetCurrentKey 90000000, CallRotateKey 90000001]
          (reportError ''quotaExceeded'' True 100 86400000 (APIKeyManager_init [''K1'', ''K2''])))
     = [None, Some ''K2'', Some ''K2'']
 \<and> fst (getCurrentKey 99000000
          (snd (runCalls [CallReportSuccess, CallGetCurrentKey 90000000, CallRotateKey 90000001]
             (reportError ''quotaExceeded'' True 100 86400000 (APIKeyManager_init [''K1'', ''K2''])))))
     = Some ''K2''
 \<and> nth_opt (apiKeys (APIKeyManager_init [''K1'', ''K2''])) (currentKeyIndex (APIKeyManager_init [''K1'', ''K2'']))
     = Some ''K1''
 \<and> map_of (keyStatuses (APIKeyManager_init [''K1'', ''K2''])) ''K1'' = Some (initialStatus ''K1'')
 \<and> ''K1'' \<in> set (apiKeys (reportError ''quotaExceeded'' True 100 86400000 (APIKeyManager_init [''K1'', ''K2''])))
 \<and> fst (getAvailableKeys 200
        (resetQuotaStatus (reportError ''quotaExceeded'' True 100 86400000 (APIKeyManager_init [''K1'', ''K2'']))))
     = [''K1'', ''K2'']
 \<and> APIKeyManager_new [''K1'', ''K2''] = Inr (APIKeyManager_init [''K1'', ''K2''])
 \<and> fst (getCurrentKey 300 (quotaFailures (length [''K1'', ''K2'']) 100 86400000 (APIKeyManager_init [''K1'', ''K2''])))
     = None
 \<and> fst (getAvailableKeys 300
        (resetQuotaStatus (quotaFailures (length [''K1'', ''K2'']) 100 86400000 (APIKeyManager_init [''K1'', ''K2'']))))
     = [''K1'', ''K2'']
 \<and> \<not> quotaExhausted (initialStatus ''K1'')
 \<and> (1000::nat) < 500 + backoffDelay (Suc (consecutiveErrors (initialStatus ''K1'')))
 \<and> ''K1'' \<notin> set (fst (getAvailableKeys 1000
        (reportError ''timeout'' False 500 86400000 (APIKeyManager_init [''K1'', ''K2'']))))
 \<and> 500 + backoffDelay (Suc (consecutiveErrors (initialStatus ''K1''))) \<le> (300500::nat)
 \<and> ''K1'' \<in> set (fst (getAvailableKeys 300500
        (reportError ''timeout'' False 500 86400000 (APIKeyManager_init [''K1'', ''K2'']))))"
  using C3_quota_exhausted_until_reset[where
      m = "reportError ''quotaExceeded'' True 100 86400000 (APIKeyManager_init [''K1'', ''K2''])"
      and k = "''K1''"
      and cs = "[CallReportSuccess, CallGetCurrentKey 90000000, CallRotateKey 90000001]"
      and t = 99000000
      and ?m2.0 = "APIKeyManager_init [''K1'', ''K2'']" and ?k2.0 = "''K1''"
      and ?s2.0 = "initialStatus ''K1''" and e = "''quotaExceeded''" and now = 100 and mid = 86400000
      and ?m3.0 = "reportError ''quotaExceeded'' True 100 86400000 (APIKeyManager_init [''K1'', ''K2''])"
      and ?k3.0 = "''K1''" and ?t3.0 = 200
      and keys = "[''K1'', ''K2'']" and ?m0.0 = "APIKeyManager_init [''K1'', ''K2'']"
      and ?t4.0 = 300 and ?now4.0 = 100 and ?mid4.0 = 86400000
      and ?m5.0 = "APIKeyManager_init [''K1'', ''K2'']" and ?k5.0 = "''K1''"
      and ?s5.0 = "initialStatus ''K1''" and ?e5.0 = "''timeout''" and ?now5.0 = 500
      and ?mid5.0 = 86400000 and ta = 1000 and tb = 300500]
  by (simp add: APIKeyManager_new_def APIKeyManager_init_def initialStatus_def keyExhausted_def
      reportError_def reportSuccess_def resetQuotaStatus_def resetStatus_def quotaStep_def
      getCurrentKey_def getAvailableKeys_def availableStep_def truthyTime_def includesKey_def
      rotateKey_def rotateLoop.simps backoffDelay_def baseRetryDelay_def maxRetryDelay_def Let_def)

text \<open>
  C4 (as amended). \<^verbatim>\<open>rotateKey\<close> returns null exactly when no key at all is available.
  Otherwise it moves the pointer to the first available key in round-robin order
  starting just after the current position, the search wrapping around and ending at
  the current position itself, and returns that key; so when the current key is the
  only available one, it is returned again. With every key of the pool ready and the
  pointer at index 0 (the state the constructor builds), N successive calls return the
  keys at indices 1, 2, ..., N-1, 0 in this order, each index once, and leave the
  pointer at index 0.
\<close>

theorem C4_rotateKey:
  "(fst (rotateKey now m) = None \<longleftrightarrow> fst (getAvailableKeys now m) = [])
 \<and> (fst (rotateKey now m) = Some k \<longrightarrow>
      (\<exists>d<length (apiKeys m).
           currentKeyIndex (snd (rotateKey now m)) = (currentKeyIndex m + 1 + d) mod length (apiKeys m)
         \<and> apiKeys m ! ((currentKeyIndex m + 1 + d) mod length (apiKeys m)) = k
         \<and> k \<in> set (fst (getAvailableKeys now m))
         \<and> (\<forall>d'<d. apiKeys m ! ((currentKeyIndex m + 1 + d') mod length (apiKeys m))
                       \<notin> set (fst (getAvailableKeys now m)))))
 \<and> (set (fst (getAvailableKeys now1 m1)) = {k1} \<longrightarrow> fst (rotateKey now1 m1) = Some k1)
 \<and> (keysReady m2 \<and> apiKeys m2 \<noteq> [] \<and> currentKeyIndex m2 = 0 \<and> length ts = length (apiKeys m2) \<longrightarrow>
        fst (rotateSeq ts m2) = map Some (rotate1 (apiKeys m2))
      \<and> currentKeyIndex (snd (rotateSeq ts m2)) = 0)
 \<and> (APIKeyManager_new keys = Inr m0 \<longrightarrow>
        keysReady m0 \<and> apiKeys m0 = keys \<and> keys \<noteq> [] \<and> currentKeyIndex m0 = 0)"
proof (intro conjI impI)
  show "fst (rotateKey now m) = None \<longleftrightarrow> fst (getAvailableKeys now m) = []"
    by (rule rotateKey_None_iff)
next
  assume "fst (rotateKey now m) = Some k"
  then show "\<exists>d<length (apiKeys m).
           currentKeyIndex (snd (rotateKey now m)) = (currentKeyIndex m + 1 + d) mod length (apiKeys m)
         \<and> apiKeys m ! ((currentKeyIndex m + 1 + d) mod length (apiKeys m)) = k
         \<and> k \<in> set (fst (getAvailableKeys now m))
         \<and> (\<forall>d'<d. apiKeys m ! ((currentKeyIndex m + 1 + d') mod length (apiKeys m))
                       \<notin> set (fst (getAvailableKeys now m)))"
    by (rule rotateKey_next_available)
next
  assume one: "set (fst (getAvailableKeys now1 m1)) = {k1}"
  have ne: "fst (getAvailableKeys now1 m1) \<noteq> []"
  proof
    assume "fst (getAvailableKeys now1 m1) = []"
    then have "set (fst (getAvailableKeys now1 m1)) = {}" by (simp only: set_simps)
    with one show False by simp
  qed
  then have "fst (rotateKey now1 m1) \<noteq> None" by (simp only: rotateKey_None_iff not_False_eq_True)
  then obtain x where x: "fst (rotateKey now1 m1) = Some x" by blast
  from rotateKey_Some[OF x] have "x \<in> {k1}" unfolding one .
  then have "x = k1" by simp
  with x show "fst (rotateKey now1 m1) = Some k1" by simp
next
  assume a: "keysReady m2 \<and> apiKeys m2 \<noteq> [] \<and> currentKeyIndex m2 = 0 \<and> length ts = length (apiKeys m2)"
  then have r: "keysReady m2" and ne: "apiKeys m2 \<noteq> []" and i0: "currentKeyIndex m2 = 0"
    and len: "length ts = length (apiKeys m2)" by auto
  have idx: "currentKeyIndex m2 < length (apiKeys m2)" using ne i0 by simp
  note rs = rotateSeq_ready[OF r ne idx, of ts]
  have "fst (rotateSeq ts m2)
        = map (\<lambda>j. Some (apiKeys m2 ! (Suc j mod length (apiKeys m2)))) [0..<length (apiKeys m2)]"
    using rs by (simp add: i0 len)
  then show "fst (rotateSeq ts m2) = map Some (rotate1 (apiKeys m2))"
    by (simp only: round_robin_list[OF ne])
  show "currentKeyIndex (snd (rotateSeq ts m2)) = 0"
    using rs by (simp add: i0 len)
next
  assume "APIKeyManager_new keys = Inr m0"
  then have m0: "m0 = APIKeyManager_init keys" and ne: "keys \<noteq> []"
    by (auto simp: APIKeyManager_new_def split: if_splits)
  show "keysReady m0" unfolding m0 by (rule keysReady_init)
  show "apiKeys m0 = keys" "currentKeyIndex m0 = 0" by (simp_all add: m0 APIKeyManager_init_def)
  show "keys \<noteq> []" by (rule ne)
qed

theorem C4_rotateKey_witness:
  "fst (rotateKey 0 (APIKeyManager_init [''K1'', ''K2'', ''K3''])) = Some ''K2''
 \<and> currentKeyIndex (snd (rotateKey 0 (APIKeyManager_init [''K1'', ''K2'', ''K3'']))) = 1
 \<and> set (fst (getAvailableKeys 0
        (reportError ''quotaExceeded'' True 0 86400000 (APIKeyManager_init [''K1'', ''K2''])))) = {''K2''}
 \<and> fst (rotateKey 0 (snd (rotateKey 0
        (reportError ''quotaExceeded'' True 0 86400000 (APIKeyManager_init [''K1'', ''K2'']))))) = Some ''K2''
 \<and> keysReady (APIKeyManager_init [''K1'', ''K2'', ''K3''])
 \<and> fst (rotateSeq [10, 20, 30] (APIKeyManager_init [''K1'', ''K2'', ''K3'']))
     = [Some ''K2'', Some ''K3'', Some ''K1'']
 \<and> APIKeyManager_new [''K1'', ''K2'', ''K3''] = Inr (APIKeyManager_init [''K1'', ''K2'', ''K3''])"
  using C4_rotateKey[where m = "APIKeyManager_init [''K1'', ''K2'', ''K3'']" and now = 0
      and k = "''K2''"
      and ?m1.0 = "reportError ''quotaExceeded'' True 0 86400000 (APIKeyManager_init [''K1'', ''K2''])"
      and ?now1.0 = 0 and ?k1.0 = "''K2''"
      and ?m2.0 = "APIKeyManager_init [''K1'', ''K2'', ''K3'']" and ts = "[10, 20, 30]"
      and keys = "[''K1'', ''K2'', ''K3'']" and ?m0.0 = "APIKeyManager_init [''K1'', ''K2'', ''K3'']"]
    keysReady_init[of "[''K1'', ''K2'', ''K3'']"]
  by (simp add: APIKeyManager_new_def APIKeyManager_init_def initialStatus_def reportError_def
      getAvailableKeys_def availableStep_def truthyTime_def includesKey_def
      rotateKey_def rotateLoop.simps Let_def)

text \<open>
  The claim as stated fails: with a pool of one key, available and current, no other
  key is available, and \<^verbatim>\<open>rotateKey\<close> returns that key, not null.
\<close>

theorem C4_rotateKey_counterexample:
  "fst (getAvailableKeys 0 (APIKeyManager_init [''K1''])) = [''K1'']
   \<and> nth_opt (apiKeys (APIKeyManager_init [''K1''])) (currentKeyIndex (APIKeyManager_init [''K1'']))
       = Some ''K1''
   \<and> fst (rotateKey 0 (APIKeyManager_init [''K1''])) = Some ''K1''
   \<and> fst (rotateKey 0 (APIKeyManager_init [''K1''])) \<noteq> None"
  by (simp add: APIKeyManager_init_def initialStatus_def getAvailableKeys_def availableStep_def
      truthyTime_def rotateKey_def rotateLoop.simps includesKey_def)

text \<open>
  C5. With the pointer on a key, each transient \<^verbatim>\<open>reportError\<close> at time \<open>t\<close> increments
  \<^verbatim>\<open>consecutiveErrors\<close> and sets \<^verbatim>\<open>nextRetryTime\<close> to \<open>t\<close> plus
  \<open>min (5 min * 2 ^ (consecutiveErrors - 1)) (60 min)\<close>; the delay never decreases from one
  consecutive error to the next and never exceeds 60 minutes; \<^verbatim>\<open>reportSuccess\<close> sets the
  counter to 0, so the next transient error waits 5 minutes again.
\<close>

theorem C5_backoff:
  assumes "nth_opt (apiKeys m) (currentKeyIndex m) = Some k"
    and "map_of (keyStatuses m) k = Some s"
  shows "(\<exists>s'. map_of (keyStatuses (transientErrors (ts @ [t]) mid m)) k = Some s'
            \<and> consecutiveErrors s' = consecutiveErrors s + length ts + 1
            \<and> nextRetryTime s'
                = Some (t + min (5 * 60 * 1000 * 2 ^ (consecutiveErrors s' - 1)) (60 * 60 * 1000)))
       \<and> (\<forall>n. 0 < n \<longrightarrow> backoffDelay n \<le> backoffDelay (Suc n) \<and> backoffDelay n \<le> 60 * 60 * 1000)
       \<and> (\<forall>n. backoffDelay n = min (5 * 60 * 1000 * 2 ^ (n - 1)) (60 * 60 * 1000))
       \<and> (\<exists>s'. map_of (keyStatuses (reportSuccess (transientErrors ts mid m))) k = Some s'
            \<and> consecutiveErrors s' = 0 \<and> nextRetryTime s' = None)
       \<and> (\<exists>s'. map_of (keyStatuses
                 (reportError e False t (mid :: nat) (reportSuccess (transientErrors ts mid m)))) k = Some s'
            \<and> consecutiveErrors s' = 1 \<and> nextRetryTime s' = Some (t + 5 * 60 * 1000))"
proof (intro conjI allI impI)
  from transientErrors_status[OF assms, of ts t mid]
  show "\<exists>s'. map_of (keyStatuses (transientErrors (ts @ [t]) mid m)) k = Some s'
            \<and> consecutiveErrors s' = consecutiveErrors s + length ts + 1
            \<and> nextRetryTime s'
                = Some (t + min (5 * 60 * 1000 * 2 ^ (consecutiveErrors s' - 1)) (60 * 60 * 1000))"
    by (auto simp: backoffDelay_def baseRetryDelay_def maxRetryDelay_def)
next
  fix n :: nat assume "0 < n"
  then show "backoffDelay n \<le> backoffDelay (Suc n)" by (simp add: backoffDelay_mono)
next
  fix n :: nat
  show "backoffDelay n \<le> 60 * 60 * 1000"
    using backoffDelay_le_max[of n] by (simp add: maxRetryDelay_def)
next
  fix n :: nat
  show "backoffDelay n = min (5 * 60 * 1000 * 2 ^ (n - 1)) (60 * 60 * 1000)"
    by (simp add: backoffDelay_def baseRetryDelay_def maxRetryDelay_def)
next
  have ptr: "nth_opt (apiKeys (transientErrors ts mid m)) (currentKeyIndex (transientErrors ts mid m)) = Some k"
    using assms(1) by (induction ts arbitrary: m) simp_all
  have "\<exists>s0. map_of (keyStatuses (transientErrors ts mid m)) k = Some s0"
  proof (cases ts rule: rev_cases)
    case Nil
    then show ?thesis using assms(2) by simp
  next
    case (snoc ys y)
    then show ?thesis using transientErrors_status[OF assms, of ys y mid] by auto
  qed
  then obtain s0 where s0: "map_of (keyStatuses (transientErrors ts mid m)) k = Some s0" ..
  note rs = reportSuccess_status[OF ptr s0]
  show "\<exists>s'. map_of (keyStatuses (reportSuccess (transientErrors ts mid m))) k = Some s'
            \<and> consecutiveErrors s' = 0 \<and> nextRetryTime s' = None"
    by (simp add: rs)
  have ptr': "nth_opt (apiKeys (reportSuccess (transientErrors ts mid m)))
                 (currentKeyIndex (reportSuccess (transientErrors ts mid m))) = Some k"
    using ptr by simp
  show "\<exists>s'. map_of (keyStatuses
                 (reportError e False t mid (reportSuccess (transientErrors ts mid m)))) k = Some s'
            \<and> consecutiveErrors s' = 1 \<and> nextRetryTime s' = Some (t + 5 * 60 * 1000)"
    by (simp add: reportError_transient_status[OF ptr' rs] backoffDelay_one baseRetryDelay_def)
qed

theorem C5_backoff_witness:
  "nth_opt (apiKeys (APIKeyManager_init [''K1''])) (currentKeyIndex (APIKeyManager_init [''K1''])) = Some ''K1''
   \<and> map_of (keyStatuses (APIKeyManager_init [''K1''])) ''K1'' = Some (initialStatus ''K1'')
   \<and> map_option nextRetryTime
        (map_of (keyStatuses (transientErrors [1000, 400000, 1000000] 0 (APIKeyManager_init [''K1'']))) ''K1'')
      = Some (Some (1000000 + 1200000))
   \<and> map_option nextRetryTime
        (map_of (keyStatuses (reportError ''timeout'' False 2000000 0
           (reportSuccess (transientErrors [1000, 400000] 0 (APIKeyManager_init [''K1''])))))
           ''K1'')
      = Some (Some (2000000 + 300000))
   \<and> backoffDelay 1 = 300000 \<and> backoffDelay 2 = 600000 \<and> backoffDelay 4 = 2400000
   \<and> backoffDelay 5 = 3600000 \<and> backoffDelay 6 = 3600000"
  using C5_backoff[where m = "APIKeyManager_init [''K1'']" and k = "''K1''"
      and s = "initialStatus ''K1''" and ts = "[1000, 400000]" and t = 1000000 and mid = 0
      and e = "''timeout''"]
  by (simp add: APIKeyManager_init_def initialStatus_def reportError_def reportSuccess_def
      backoffDelay_def baseRetryDelay_def maxRetryDelay_def Let_def)

section \<open>Claims about the client\<close>

text \<open>
  C1. The claim expects the provider's quota signal to make the client report the key,
  rotate and retry with the next key. The client holds one key and no key manager, and
  this is what its methods do. Every run of a method leaves the key and the rest of the
  configuration as they were, only adds calls to the log, and makes every provider call
  with the client's key. If a call a run has made was answered with the quota signal
  (status 403, a message containing "quota"), the run has failed with the non-retryable
  quota failure (code 403) carrying the provider's message, and that call is the last of
  the log and occurs once among the calls of the run: nothing is retried, with this key
  or another. This holds of the entity lookup, of the video listing, of the batched
  detail fetch at every batch, of the channel detail fetch, of the native search, of
  the search-service branch, and of \<^verbatim>\<open>searchChannels\<close> from the state in which the attempt
  at the search service, if any, is over (the state it starts from when no search
  service is used).
\<close>

theorem C1_single_key_no_retry:
  "singleKey c1 (getChannelInfo w1 channelId1 now1 c1)
 \<and> quotaStops w1 c1 (getChannelInfo w1 channelId1 now1 c1) x1 msg1
 \<and> singleKey c2 (getChannelVideos w2 channelId2 limit2 now2 c2)
 \<and> quotaStops w2 c2 (getChannelVideos w2 channelId2 limit2 now2 c2) x2 msg2
 \<and> singleKey c3 (getVideoDetails w3 videoIds3 c3)
 \<and> quotaStops w3 c3 (getVideoDetails w3 videoIds3 c3) x3 msg3
 \<and> singleKey c4 (getChannelsByIds w4 channelIds4 c4)
 \<and> quotaStops w4 c4 (getChannelsByIds w4 channelIds4 c4) x4 msg4
 \<and> singleKey c5 (searchChannelsViaAPI w5 query5 cacheKey5 now5 c5)
 \<and> quotaStops w5 c5 (searchChannelsViaAPI w5 query5 cacheKey5 now5 c5) x5 msg5
 \<and> singleKey c6 (searchChannelsViaService w6 query6 cacheKey6 now6 c6)
 \<and> quotaStops w6 c6 (searchChannelsViaService w6 query6 cacheKey6 now6 c6) x6 msg6
 \<and> singleKey c7 (searchChannels w7 query7 now7 c7)
 \<and> quotaStops w7 (afterBridgeAttempt w7 query7 now7 c7) (searchChannels w7 query7 now7 c7) x7 msg7
 \<and> (\<not> bridgeEnabled c8 \<longrightarrow> calls (afterBridgeAttempt w8 query8 now8 c8) = calls c8)
 \<and> code (quotaExceededError msg9) = 403 \<and> \<not> retryable (quotaExceededError msg9)"
proof (intro conjI)
  show "singleKey c1 (getChannelInfo w1 channelId1 now1 c1)"
    by (rule singleKey_getChannelInfo)
  show "quotaStops w1 c1 (getChannelInfo w1 channelId1 now1 c1) x1 msg1"
    by (rule quotaStops_getChannelInfo)
  show "singleKey c2 (getChannelVideos w2 channelId2 limit2 now2 c2)"
    by (rule singleKey_getChannelVideos)
  show "quotaStops w2 c2 (getChannelVideos w2 channelId2 limit2 now2 c2) x2 msg2"
    by (rule quotaStops_getChannelVideos)
  show "singleKey c3 (getVideoDetails w3 videoIds3 c3)"
    by (rule run_singleKey[OF run_getVideoDetails])
  show "quotaStops w3 c3 (getVideoDetails w3 videoIds3 c3) x3 msg3"
    by (rule run_quotaStops[OF run_getVideoDetails])
  show "singleKey c4 (getChannelsByIds w4 channelIds4 c4)"
    by (rule run_singleKey[OF run_getChannelsByIds])
  show "quotaStops w4 c4 (getChannelsByIds w4 channelIds4 c4) x4 msg4"
    by (rule run_quotaStops[OF run_getChannelsByIds])
  show "singleKey c5 (searchChannelsViaAPI w5 query5 cacheKey5 now5 c5)"
    by (rule run_singleKey[OF run_searchChannelsViaAPI])
  show "quotaStops w5 c5 (searchChannelsViaAPI w5 query5 cacheKey5 now5 c5) x5 msg5"
    by (rule run_quotaStops[OF run_searchChannelsViaAPI])
  show "singleKey c6 (searchChannelsViaService w6 query6 cacheKey6 now6 c6)"
    by (rule searchChannelsViaService_facts(1))
  show "quotaStops w6 c6 (searchChannelsViaService w6 query6 cacheKey6 now6 c6) x6 msg6"
    by (rule quotaStops_searchChannelsViaService)
  show "singleKey c7 (searchChannels w7 query7 now7 c7)"
    by (rule singleKey_searchChannels)
  show "quotaStops w7 (afterBridgeAttempt w7 query7 now7 c7) (searchChannels w7 query7 now7 c7) x7 msg7"
    by (rule quotaStops_searchChannels)
  show "\<not> bridgeEnabled c8 \<longrightarrow> calls (afterBridgeAttempt w8 query8 now8 c8) = calls c8"
    by (simp add: afterBridgeAttempt_no_bridge)
qed (simp_all add: quotaExceededError_def)

text \<open>
  The key K1 is exhausted and the provider serves K2. A configuration with a list of keys
  and no \<^verbatim>\<open>apiKey\<close> is rejected by the constructor. The client built for K1 makes each
  request once, with K1, and surfaces the quota failure, where the same request with K2
  is served; with a healthy search service whose branch meets the quota signal, the
  native search follows with the same key and surfaces the quota failure.
\<close>

theorem C1_single_key_no_retry_witness:
  "YouTubeAPIClient_new \<lparr>cfg_apiKey = None, cfg_cache = None, cfg_maxResults = None,
      cfg_videoTimeWindowDays = None, cfg_searchService = None, cfg_useSearchService = None\<rparr>
     = Inl ''YouTube API key is required''
 \<and> YouTubeAPIClient_new (plainConfig ''K1'') = Inr (plainClient ''K1'')
 \<and> quotaAnswer quotaEnv (ProviderChannels ''K1'' ''UCx'') quotaMessage
 \<and> getChannelInfo quotaEnv ''UCx'' 0 (plainClient ''K1'')
     = (Inl (quotaExceededError quotaMessage), (plainClient ''K1'')\<lparr>calls := [ProviderChannels ''K1'' ''UCx'']\<rparr>)
 \<and> fst (getChannelInfo quotaEnv ''UCx'' 0 (plainClient ''K2'')) = Inr (mapChannelItem (channelItem ''UCx''))
 \<and> quotaAnswer quotaEnv (ProviderPlaylistItems ''K1'' ''UUUCx'' 50) quotaMessage
 \<and> getChannelVideos quotaEnv ''UCx'' None 0 (cachedClient ''K1'')
     = (Inl (quotaExceededError quotaMessage),
        (cachedClient ''K1'')\<lparr>calls := [ProviderPlaylistItems ''K1'' ''UUUCx'' 50]\<rparr>)
 \<and> fst (getChannelVideos quotaEnv ''UCx'' None 0 (cachedClient ''K2'')) = Inr (VideoArr [])
 \<and> quotaAnswer quotaEnv (ProviderVideos ''K1'' ''v1,v2'') quotaMessage
 \<and> getVideoDetails quotaEnv [''v1'', ''v2''] (plainClient ''K1'')
     = (Inl (quotaExceededError quotaMessage), (plainClient ''K1'')\<lparr>calls := [ProviderVideos ''K1'' ''v1,v2'']\<rparr>)
 \<and> fst (getVideoDetails quotaEnv [''v1'', ''v2''] (plainClient ''K2'')) = Inr []
 \<and> quotaAnswer quotaEnv (ProviderChannels ''K1'' ''CA,CB'') quotaMessage
 \<and> getChannelsByIds quotaEnv [''CA'', ''CB''] (plainClient ''K1'')
     = (Inl (quotaExceededError quotaMessage), (plainClient ''K1'')\<lparr>calls := [ProviderChannels ''K1'' ''CA,CB'']\<rparr>)
 \<and> quotaAnswer quotaEnv (ProviderSearch ''K1'' ''cats'' 25) quotaMessage
 \<and> searchChannelsViaAPI quotaEnv ''cats'' ''search:cats'' 0 (plainClient ''K1'')
     = (Inl (quotaExceededError quotaMessage), (plainClient ''K1'')\<lparr>calls := [ProviderSearch ''K1'' ''cats'' 25]\<rparr>)
 \<and> quotaAnswer bridgeQuotaEnv (ProviderVideos ''K1'' ''A'') quotaMessage
 \<and> searchChannelsViaService bridgeQuotaEnv ''cats'' ''search:cats'' 0 bridgeClient
     = (Inl (quotaExceededError quotaMessage),
        bridgeClient\<lparr>calls := [BridgeSearch ''cats'' 25, ProviderVideos ''K1'' ''A'']\<rparr>)
 \<and> afterBridgeAttempt bridgeQuotaEnv ''cats'' 0 bridgeClient
     = bridgeClient\<lparr>calls := [HealthProbe, BridgeSearch ''cats'' 25, ProviderVideos ''K1'' ''A'']\<rparr>
 \<and> searchChannels bridgeQuotaEnv ''cats'' 0 bridgeClient
     = (Inl (quotaExceededError quotaMessage),
        bridgeClient\<lparr>calls := [HealthProbe, BridgeSearch ''cats'' 25, ProviderVideos ''K1'' ''A'',
                                ProviderSearch ''K1'' ''cats'' 25]\<rparr>)
 \<and> \<not> bridgeEnabled (plainClient ''K1'')
 \<and> calls (afterBridgeAttempt quotaEnv ''cats'' 0 (plainClient ''K1'')) = []
 \<and> searchChannels quotaEnv ''cats'' 0 (plainClient ''K1'')
     = (Inl (quotaExceededError quotaMessage), (plainClient ''K1'')\<lparr>calls := [ProviderSearch ''K1'' ''cats'' 25]\<rparr>)"
  using C1_single_key_no_retry[where ?w1.0 = quotaEnv and ?channelId1.0 = "''UCx''" and ?now1.0 = 0
      and ?c1.0 = "plainClient ''K1''" and ?x1.0 = "ProviderChannels ''K1'' ''UCx''" and ?msg1.0 = quotaMessage
      and ?w2.0 = quotaEnv and ?channelId2.0 = "''UCx''" and ?limit2.0 = None and ?now2.0 = 0
      and ?c2.0 = "cachedClient ''K1''" and ?x2.0 = "ProviderPlaylistItems ''K1'' ''UUUCx'' 50"
      and ?msg2.0 = quotaMessage
      and ?w3.0 = quotaEnv and ?videoIds3.0 = "[''v1'', ''v2'']" and ?c3.0 = "plainClient ''K1''"
      and ?x3.0 = "ProviderVideos ''K1'' ''v1,v2''" and ?msg3.0 = quotaMessage
      and ?w4.0 = quotaEnv and ?channelIds4.0 = "[''CA'', ''CB'']" and ?c4.0 = "plainClient ''K1''"
      and ?x4.0 = "ProviderChannels ''K1'' ''CA,CB''" and ?msg4.0 = quotaMessage
      and ?w5.0 = quotaEnv and ?query5.0 = "''cats''" and ?cacheKey5.0 = "''search:cats''" and ?now5.0 = 0
      and ?c5.0 = "plainClient ''K1''" and ?x5.0 = "ProviderSearch ''K1'' ''cats'' 25" and ?msg5.0 = quotaMessage
      and ?w6.0 = bridgeQuotaEnv and ?query6.0 = "''cats''" and ?cacheKey6.0 = "''search:cats''"
      and ?now6.0 = 0 and ?c6.0 = bridgeClient and ?x6.0 = "ProviderVideos ''K1'' ''A''"
      and ?msg6.0 = quotaMessage
      and ?w7.0 = bridgeQuotaEnv and ?query7.0 = "''cats''" and ?now7.0 = 0 and ?c7.0 = bridgeClient
      and ?x7.0 = "ProviderSearch ''K1'' ''cats'' 25" and ?msg7.0 = quotaMessage
      and ?w8.0 = quotaEnv and ?query8.0 = "''cats''" and ?now8.0 = 0 and ?c8.0 = "plainClient ''K1''"
      and ?msg9.0 = quotaMessage]
  by (simp add: client_eval quota_eval quotaEnv_def bridgeQuotaEnv_def plainClient_def plainConfig_def
      cachedClient_def bridgeClient_def quotaError_def YouTubeAPIClient_new_def channelsBody_def
      channelItem_def thumbs_def hit_def)

text \<open>
  C9 (as amended). Every failure that \<^verbatim>\<open>searchChannels\<close>, \<^verbatim>\<open>getChannelInfo\<close>,
  \<^verbatim>\<open>getChannelVideos\<close> or \<^verbatim>\<open>getVideoDetails\<close> surfaces has its \<^verbatim>\<open>retryable\<close> flag set exactly
  when its code is none of 400, 403 and 404. The failure is the one the client makes of
  a blank query or channel id (code 400, not retryable), or it is the failure of the
  last outbound call of the run, passed on unchanged, or, for a channel lookup, the
  failure 404 (not retryable) when that call was answered without items. The failure of
  a call is \<^verbatim>\<open>handleError\<close> of the axios error: code 0 and retryable for a network failure
  (no response); for a response the code is its status and the flag is true unless the
  status is 400, 403 or 404 (so true for 429, 500, 503 and any other status, false for
  quota exhaustion and every other 403, for 400 and for 404). When no axios error was
  thrown the failure has code 500 and is retryable: this is the case of a structurally
  malformed response (falsy body, missing required field, \<^verbatim>\<open>items\<close> not an array). Any
  other thrown value gives code 500, retryable, and a failure that is already an
  \<^verbatim>\<open>APIError\<close> is passed on unchanged.
\<close>

theorem C9_retryable_flags:
  "(fst (searchChannels w1 query1 now1 c1) = Inl e1 \<longrightarrow>
       (retryable e1 \<longleftrightarrow> code e1 \<notin> {400, 403, 404})
     \<and> (if length (trim query1) = 0 then e1 = blankQueryError
        else surfaces w1 False (newCalls c1 (snd (searchChannels w1 query1 now1 c1))) e1))
 \<and> (fst (getChannelInfo w2 channelId2 now2 c2) = Inl e2 \<longrightarrow>
       (retryable e2 \<longleftrightarrow> code e2 \<notin> {400, 403, 404})
     \<and> (if length (trim channelId2) = 0 then e2 = blankChannelIdError
        else surfaces w2 True (newCalls c2 (snd (getChannelInfo w2 channelId2 now2 c2))) e2))
 \<and> (fst (getChannelVideos w3 channelId3 limit3 now3 c3) = Inl e3 \<longrightarrow>
       (retryable e3 \<longleftrightarrow> code e3 \<notin> {400, 403, 404})
     \<and> (if length (trim channelId3) = 0 then e3 = blankChannelIdError
        else surfaces w3 True (newCalls c3 (snd (getChannelVideos w3 channelId3 limit3 now3 c3))) e3))
 \<and> (fst (getVideoDetails w4 videoIds4 c4) = Inl e4 \<longrightarrow>
       (retryable e4 \<longleftrightarrow> code e4 \<notin> {400, 403, 404})
     \<and> surfaces w4 False (newCalls c4 (snd (getVideoDetails w4 videoIds4 c4))) e4)
 \<and> (callError w5 x5 = Some a5 \<longrightarrow> callFailure w5 x5 = Some (handleError (ThrownAxios a5)))
 \<and> (callError w6 x6 = None \<and> callFailure w6 x6 = Some e6 \<longrightarrow> code e6 = 500 \<and> retryable e6)
 \<and> handleError (ThrownAPIError e) = e
 \<and> (ae_response a1 = None \<longrightarrow>
       code (handleError (ThrownAxios a1)) = 0 \<and> retryable (handleError (ThrownAxios a1)))
 \<and> (ae_response a2 = Some r \<longrightarrow>
       code (handleError (ThrownAxios a2)) = ar_status r
     \<and> (retryable (handleError (ThrownAxios a2)) \<longleftrightarrow> ar_status r \<notin> {400, 403, 404}))
 \<and> code (handleError (ThrownError msg)) = 500 \<and> retryable (handleError (ThrownError msg))
 \<and> code (handleError ThrownOther) = 500 \<and> retryable (handleError ThrownOther)
 \<and> (validateResponse (response :: 'i api_body) requiredFields = Inl e7 \<longrightarrow>
       code e7 = 500 \<and> retryable e7)
 \<and> (length (trim query) = 0 \<longrightarrow>
       searchChannels w query now c = (Inl blankQueryError, c)
     \<and> getChannelInfo w query now c = (Inl blankChannelIdError, c)
     \<and> getChannelVideos w query limit now c = (Inl blankChannelIdError, c))
 \<and> code blankQueryError = 400 \<and> \<not> retryable blankQueryError
 \<and> code blankChannelIdError = 400 \<and> \<not> retryable blankChannelIdError
 \<and> code channelNotFoundError = 404 \<and> \<not> retryable channelNotFoundError
 \<and> (length (trim channelId) \<noteq> 0 \<and> fst (getChannel channelId now8 (cache c8)) = None
      \<and> api_channels w8 (apiKey c8) channelId = Inr (Body fs (ItemsArray [])) \<longrightarrow>
       fst (getChannelInfo w8 channelId now8 c8) = Inl channelNotFoundError)"
proof (intro conjI impI)
  show "handleError (ThrownAPIError e) = e" by (simp add: handleError_def)
  show "code (handleError (ThrownError msg)) = 500" "retryable (handleError (ThrownError msg))"
    "code (handleError ThrownOther) = 500" "retryable (handleError ThrownOther)"
    by (simp_all add: handleError_def createAPIError_def)
  show "code blankQueryError = 400" "\<not> retryable blankQueryError"
    "code blankChannelIdError = 400" "\<not> retryable blankChannelIdError"
    "code channelNotFoundError = 404" "\<not> retryable channelNotFoundError"
    by (simp_all add: blankQueryError_def blankChannelIdError_def channelNotFoundError_def)
next
  assume a: "fst (searchChannels w1 query1 now1 c1) = Inl e1"
  from surfaced_searchChannels[OF a]
  show "retryable e1 \<longleftrightarrow> code e1 \<notin> {400, 403, 404}"
    and "if length (trim query1) = 0 then e1 = blankQueryError
         else surfaces w1 False (newCalls c1 (snd (searchChannels w1 query1 now1 c1))) e1"
    by blast+
next
  assume a: "fst (getChannelInfo w2 channelId2 now2 c2) = Inl e2"
  from surfaced_getChannelInfo[OF a]
  show "retryable e2 \<longleftrightarrow> code e2 \<notin> {400, 403, 404}"
    and "if length (trim channelId2) = 0 then e2 = blankChannelIdError
         else surfaces w2 True (newCalls c2 (snd (getChannelInfo w2 channelId2 now2 c2))) e2"
    by blast+
next
  assume a: "fst (getChannelVideos w3 channelId3 limit3 now3 c3) = Inl e3"
  from surfaced_getChannelVideos[OF a]
  show "retryable e3 \<longleftrightarrow> code e3 \<notin> {400, 403, 404}"
    and "if length (trim channelId3) = 0 then e3 = blankChannelIdError
         else surfaces w3 True (newCalls c3 (snd (getChannelVideos w3 channelId3 limit3 now3 c3))) e3"
    by blast+
next
  assume a: "fst (getVideoDetails w4 videoIds4 c4) = Inl e4"
  from surfaced_getVideoDetails[OF a]
  show "retryable e4 \<longleftrightarrow> code e4 \<notin> {400, 403, 404}"
    and "surfaces w4 False (newCalls c4 (snd (getVideoDetails w4 videoIds4 c4))) e4"
    by blast+
next
  assume "callError w5 x5 = Some a5"
  then show "callFailure w5 x5 = Some (handleError (ThrownAxios a5))"
    by (rule callError_failure)
next
  assume a: "callError w6 x6 = None \<and> callFailure w6 x6 = Some e6"
  from callFailure_no_error[of w6 x6 e6] a show "code e6 = 500" "retryable e6" by simp_all
next
  assume "ae_response a1 = None"
  then show "code (handleError (ThrownAxios a1)) = 0" "retryable (handleError (ThrownAxios a1))"
    by (simp_all add: handleError_def createAPIError_def)
next
  assume r: "ae_response a2 = Some r"
  show "code (handleError (ThrownAxios a2)) = ar_status r"
    by (rule handleError_axios_response(1)[OF r])
  show "retryable (handleError (ThrownAxios a2)) \<longleftrightarrow> ar_status r \<notin> {400, 403, 404}"
    by (rule handleError_axios_response(2)[OF r])
next
  assume v: "validateResponse response requiredFields = Inl e7"
  from validateResponse_failure[OF v] show "code e7 = 500" "retryable e7" by simp_all
next
  assume b: "length (trim query) = 0"
  then show "searchChannels w query now c = (Inl blankQueryError, c)"
    by (rule searchChannels_blank)
  from b show "getChannelInfo w query now c = (Inl blankChannelIdError, c)"
    by (rule getChannelInfo_blank)
  from b show "getChannelVideos w query limit now c = (Inl blankChannelIdError, c)"
    by (rule getChannelVideos_blank)
next
  assume "length (trim channelId) \<noteq> 0 \<and> fst (getChannel channelId now8 (cache c8)) = None
      \<and> api_channels w8 (apiKey c8) channelId = Inr (Body fs (ItemsArray []))"
  then have "fst (getChannelInfo w8 channelId now8 c8)
         = Inl \<lparr>code = 404, message = ''Channel not found'',
                 userMessage = ''The channel you requested could not be found'', retryable = False\<rparr>"
    by (intro getChannelInfo_not_found) auto
  then show "fst (getChannelInfo w8 channelId now8 c8) = Inl channelNotFoundError"
    by (simp add: channelNotFoundError_def)
qed

theorem C9_retryable_flags_witness:
  "fst (searchChannels (demoEnv None (Inl ''unused'') (Inl (statusError 429))) ''cats'' 0 bridgeClient)
     = Inl tooManyRequests
 \<and> retryable tooManyRequests \<and> code tooManyRequests = 429
 \<and> last (newCalls bridgeClient
      (snd (searchChannels (demoEnv None (Inl ''unused'') (Inl (statusError 429))) ''cats'' 0 bridgeClient)))
     = ProviderSearch ''K1'' ''cats'' 25
 \<and> callFailure (demoEnv None (Inl ''unused'') (Inl (statusError 429))) (ProviderSearch ''K1'' ''cats'' 25)
     = Some tooManyRequests
 \<and> fst (getChannelInfo emptyItemsEnv ''UCx'' 0 (plainClient ''K1'')) = Inl channelNotFoundError
 \<and> noSuchChannel emptyItemsEnv (ProviderChannels ''K1'' ''UCx'')
 \<and> fst (getChannelVideos quotaEnv ''UCx'' None 0 (cachedClient ''K1'')) = Inl (quotaExceededError quotaMessage)
 \<and> callFailure quotaEnv (ProviderPlaylistItems ''K1'' ''UUUCx'' 50) = Some (quotaExceededError quotaMessage)
 \<and> code (quotaExceededError quotaMessage) = 403 \<and> \<not> retryable (quotaExceededError quotaMessage)
 \<and> fst (getVideoDetails malformedEnv [''v1''] (plainClient ''K1'')) = Inl missingItems
 \<and> callError malformedEnv (ProviderVideos ''K1'' ''v1'') = None
 \<and> callFailure malformedEnv (ProviderVideos ''K1'' ''v1'') = Some missingItems
 \<and> code missingItems = 500 \<and> retryable missingItems
 \<and> callError (demoEnv None (Inl ''unused'') (Inl networkError)) (ProviderSearch ''K1'' ''cats'' 25)
     = Some networkError
 \<and> callFailure (demoEnv None (Inl ''unused'') (Inl networkError)) (ProviderSearch ''K1'' ''cats'' 25)
     = Some connectionFailure
 \<and> ae_response networkError = None
 \<and> handleError (ThrownAxios networkError) = connectionFailure
 \<and> code connectionFailure = 0 \<and> retryable connectionFailure
 \<and> ae_response (statusError 429) = Some \<lparr>ar_status = 429, dataErrorMessage = None\<rparr>
 \<and> code (handleError (ThrownAxios (statusError 429))) = 429
 \<and> retryable (handleError (ThrownAxios (statusError 429)))
 \<and> validateResponse (Body [''kind''] ItemsNotArray :: YouTubeVideoItem api_body) [''items'']
     = Inl \<lparr>code = 500, message = ''Invalid items field in response'',
             userMessage = ''Received an invalid response from YouTube'', retryable = True\<rparr>
 \<and> length (trim [CHR '' '', CHR 0xA0, CHR 0x09]) = 0
 \<and> fst (searchChannels emptyItemsEnv [CHR '' '', CHR 0xA0, CHR 0x09] 0 (plainClient ''K1''))
     = Inl blankQueryError
 \<and> fst (getChannelInfo emptyItemsEnv [CHR '' '', CHR 0xA0, CHR 0x09] 0 (plainClient ''K1''))
     = Inl blankChannelIdError
 \<and> length (trim ''UCx'') \<noteq> 0
 \<and> fst (getChannel ''UCx'' 0 (cache (plainClient ''K1''))) = None
 \<and> api_channels emptyItemsEnv (apiKey (plainClient ''K1'')) ''UCx''
     = Inr (Body [''kind'', ''etag''] (ItemsArray []))
 \<and> channelNotFoundError
     = \<lparr>code = 404, message = ''Channel not found'',
         userMessage = ''The channel you requested could not be found'', retryable = False\<rparr>"
  using C9_retryable_flags[where ?w1.0 = "demoEnv None (Inl ''unused'') (Inl (statusError 429))"
      and ?query1.0 = "''cats''" and ?now1.0 = 0 and ?c1.0 = bridgeClient and ?e1.0 = tooManyRequests
      and ?w2.0 = emptyItemsEnv and ?channelId2.0 = "''UCx''" and ?now2.0 = 0
      and ?c2.0 = "plainClient ''K1''" and ?e2.0 = channelNotFoundError
      and ?w3.0 = quotaEnv and ?channelId3.0 = "''UCx''" and ?limit3.0 = None and ?now3.0 = 0
      and ?c3.0 = "cachedClient ''K1''" and ?e3.0 = "quotaExceededError quotaMessage"
      and ?w4.0 = malformedEnv and ?videoIds4.0 = "[''v1'']" and ?c4.0 = "plainClient ''K1''"
      and ?e4.0 = missingItems
      and ?w5.0 = "demoEnv None (Inl ''unused'') (Inl networkError)"
      and ?x5.0 = "ProviderSearch ''K1'' ''cats'' 25" and ?a5.0 = networkError
      and ?w6.0 = malformedEnv and ?x6.0 = "ProviderVideos ''K1'' ''v1''" and ?e6.0 = missingItems
      and ?a1.0 = networkError and ?a2.0 = "statusError 429"
      and r = "\<lparr>ar_status = 429, dataErrorMessage = None\<rparr>"
      and response = "Body [''kind''] ItemsNotArray :: YouTubeVideoItem api_body"
      and requiredFields = "[''items'']"
      and ?e7.0 = "\<lparr>code = 500, message = ''Invalid items field in response'',
             userMessage = ''Received an invalid response from YouTube'', retryable = True\<rparr>"
      and query = "[CHR '' '', CHR 0xA0, CHR 0x09]" and w = emptyItemsEnv and now = 0
      and c = "plainClient ''K1''"
      and channelId = "''UCx''" and ?now8.0 = 0 and ?c8.0 = "plainClient ''K1''"
      and ?w8.0 = emptyItemsEnv and fs = "[''kind'', ''etag'']"]
  by (simp add: client_eval failure_eval emptyItemsEnv_def malformedEnv_def quotaEnv_def demoEnv_def
      plainClient_def bridgeClient_def cachedClient_def networkError_def statusError_def
      quotaError_def quotaExceededError_def quotaMessage_def tooManyRequests_def missingItems_def
      connectionFailure_def channelItem_def thumbs_def)

text \<open>
  The claim as stated fails for a structurally malformed response: a body without
  \<^verbatim>\<open>items\<close> gives a failure with code 500 whose flag is true.
\<close>

theorem C9_retryable_flags_counterexample:
  "validateResponse (Body [''kind'', ''etag''] ItemsMissing :: YouTubeChannelItem api_body) [''items'']
     = Inl \<lparr>code = 500, message = ''Missing required field: items'',
             userMessage = ''Received an invalid response from YouTube'', retryable = True\<rparr>
 \<and> fst (getChannelInfo malformedEnv ''UCx'' 0 (plainClient ''K1''))
     = Inl \<lparr>code = 500, message = ''Missing required field: items'',
             userMessage = ''Received an invalid response from YouTube'', retryable = True\<rparr>"
  by (simp add: client_eval malformedEnv_def plainClient_def)

text \<open>
  C6. When the search gets past the validation and the cache and the search service is
  enabled: if the health probe does not report healthy, or the search-service branch
  throws at any step, \<^verbatim>\<open>searchChannels\<close> is the native search, run from the state the
  attempt has left, and its result is the result of the same client without a search
  service; so every failure it surfaces is a failure of the native search.
\<close>

theorem C6_bridge_failure_falls_through:
  assumes "searchMisses query now c" and "bridgeEnabled c"
  shows "(bridge_health w1 \<noteq> Some True \<longrightarrow>
            searchChannels w1 query now c
              = asChannelArray (searchChannelsViaAPI w1 query (searchCacheKey query) now
                  (afterProbe query now c))
          \<and> fst (searchChannels w1 query now c)
              = fst (searchChannels w1 query now (c\<lparr>searchService := None\<rparr>)))
       \<and> (bridge_health w2 = Some True
            \<and> fst (searchChannelsViaService w2 query (searchCacheKey query) now
                     (afterProbe query now c)) = Inl e \<longrightarrow>
            searchChannels w2 query now c
              = asChannelArray (searchChannelsViaAPI w2 query (searchCacheKey query) now
                  (snd (searchChannelsViaService w2 query (searchCacheKey query) now
                     (afterProbe query now c))))
          \<and> fst (searchChannels w2 query now c)
              = fst (searchChannels w2 query now (c\<lparr>searchService := None\<rparr>)))
       \<and> (fst (searchChannels w3 query now c) = Inl e' \<longrightarrow>
            fst (searchChannels w3 query now (c\<lparr>searchService := None\<rparr>)) = Inl e')"
proof -
  from assms have a: "length (trim query) \<noteq> 0"
    "fst (getVideos (searchCacheKey query) now (cache c)) = None"
    "searchService c \<noteq> None" "useSearchService c"
    by (simp_all add: searchMisses_def bridgeEnabled_def)
  show ?thesis
    using bridge_falls_through[OF a, of w1 e e'] bridge_falls_through[OF a, of w2 e e']
      bridge_falls_through[OF a, of w3 e e']
    unfolding afterProbe_def by blast
qed

theorem C6_bridge_failure_falls_through_witness:
  "searchMisses ''cats'' 0 bridgeClient \<and> bridgeEnabled bridgeClient
 \<and> bridge_health (demoEnv (Some False) (Inl ''unused'') (Inr nativeHits)) \<noteq> Some True
 \<and> searchChannels (demoEnv (Some False) (Inl ''unused'') (Inr nativeHits)) ''cats'' 0 bridgeClient
     = (Inr (ChannelArr [mapChannelItem (channelItem ''CB''), mapChannelItem (channelItem ''CA'')]),
        bridgeClient
          \<lparr>cache := setVideos ''search:cats''
                      (ChannelArr [mapChannelItem (channelItem ''CB''), mapChannelItem (channelItem ''CA'')])
                      (Some 86400000) 0 (cache bridgeClient),
           calls := [HealthProbe, ProviderSearch ''K1'' ''cats'' 25, ProviderChannels ''K1'' ''CB,CA'']\<rparr>)
 \<and> bridge_health (demoEnv (Some True) (Inl ''Search request timed out'') (Inr nativeHits)) = Some True
 \<and> fst (searchChannelsViaService (demoEnv (Some True) (Inl ''Search request timed out'') (Inr nativeHits))
          ''cats'' (searchCacheKey ''cats'') 0 (afterProbe ''cats'' 0 bridgeClient))
     = Inl \<lparr>code = 500, message = ''Search request timed out'',
             userMessage = ''An unexpected error occurred. Please try again.'', retryable = True\<rparr>
 \<and> fst (searchChannels (demoEnv (Some True) (Inl ''Search request timed out'') (Inr nativeHits))
          ''cats'' 0 bridgeClient)
     = Inr (ChannelArr [mapChannelItem (channelItem ''CB''), mapChannelItem (channelItem ''CA'')])
 \<and> calls (snd (searchChannels (demoEnv (Some True) (Inl ''Search request timed out'') (Inr nativeHits))
          ''cats'' 0 bridgeClient))
     = [HealthProbe, BridgeSearch ''cats'' 25, ProviderSearch ''K1'' ''cats'' 25,
        ProviderChannels ''K1'' ''CB,CA'']
 \<and> fst (searchChannels (demoEnv None (Inl ''unused'') (Inl networkError)) ''cats'' 0 bridgeClient)
     = Inl \<lparr>code = 0, message = ''Network Error'',
             userMessage = ''Unable to connect to YouTube. Please check your internet connection.'',
             retryable = True\<rparr>
 \<and> fst (searchChannels (demoEnv None (Inl ''unused'') (Inl networkError)) ''cats'' 0
          (bridgeClient\<lparr>searchService := None\<rparr>))
     = Inl \<lparr>code = 0, message = ''Network Error'',
             userMessage = ''Unable to connect to YouTube. Please check your internet connection.'',
             retryable = True\<rparr>"
  using C6_bridge_failure_falls_through[where query = "''cats''" and now = 0 and c = bridgeClient
      and ?w1.0 = "demoEnv (Some False) (Inl ''unused'') (Inr nativeHits)"
      and ?w2.0 = "demoEnv (Some True) (Inl ''Search request timed out'') (Inr nativeHits)"
      and e = "\<lparr>code = 500, message = ''Search request timed out'',
             userMessage = ''An unexpected error occurred. Please try again.'', retryable = True\<rparr>"
      and ?w3.0 = "demoEnv None (Inl ''unused'') (Inl networkError)"
      and e' = "\<lparr>code = 0, message = ''Network Error'',
             userMessage = ''Unable to connect to YouTube. Please check your internet connection.'',
             retryable = True\<rparr>"]
  by (simp add: client_eval searchMisses_def bridgeEnabled_def afterProbe_def demoEnv_def
      bridgeClient_def nativeHits_def channelsBody_def channelItem_def thumbs_def networkError_def)

text \<open>
  C8 (as amended). When a search query yields zero hits, from the search service or
  from the native search, \<^verbatim>\<open>searchChannels\<close> returns an empty result set and does not
  cache it: the cache has no entry under the query's key afterwards, and repeating the
  query at any later time makes the same outbound calls again. For the native search
  this holds however it was reached: without a search service, after a health probe
  that did not report healthy, and after a search-service branch that failed at any
  step.
\<close>

theorem C8_empty_result_not_cached:
  "(searchMisses query now c \<and> bridgeEnabled c \<and> bridge_health w = Some True
      \<and> bridge_search w (trim query) (min (maxResults c) 25) = Inr [] \<longrightarrow>
        fst (searchChannels w query now c) = Inr (ChannelArr [])
      \<and> map_of (videoCache (cache (snd (searchChannels w query now c)))) (searchCacheKey query) = None
      \<and> calls (snd (searchChannels w query now c))
          = calls c @ [HealthProbe, BridgeSearch (trim query) (min (maxResults c) 25)]
      \<and> fst (searchChannels w query later (snd (searchChannels w query now c))) = Inr (ChannelArr [])
      \<and> calls (snd (searchChannels w query later (snd (searchChannels w query now c))))
          = calls c @ [HealthProbe, BridgeSearch (trim query) (min (maxResults c) 25),
                       HealthProbe, BridgeSearch (trim query) (min (maxResults c) 25)])
 \<and> (searchMisses query2 now2 c2 \<and> \<not> bridgeEnabled c2
      \<and> api_search w2 (apiKey c2) query2 (min (maxResults c2) 25) = Inr (Body fs (ItemsArray [])) \<longrightarrow>
        fst (searchChannels w2 query2 now2 c2) = Inr (ChannelArr [])
      \<and> map_of (videoCache (cache (snd (searchChannels w2 query2 now2 c2)))) (searchCacheKey query2) = None
      \<and> calls (snd (searchChannels w2 query2 now2 c2))
          = calls c2 @ [ProviderSearch (apiKey c2) query2 (min (maxResults c2) 25)]
      \<and> fst (searchChannels w2 query2 later2 (snd (searchChannels w2 query2 now2 c2))) = Inr (ChannelArr [])
      \<and> calls (snd (searchChannels w2 query2 later2 (snd (searchChannels w2 query2 now2 c2))))
          = calls c2 @ [ProviderSearch (apiKey c2) query2 (min (maxResults c2) 25),
                        ProviderSearch (apiKey c2) query2 (min (maxResults c2) 25)])
 \<and> (searchMisses query3 now3 c3 \<and> bridgeEnabled c3 \<and> bridge_health w3 \<noteq> Some True
      \<and> api_search w3 (apiKey c3) query3 (min (maxResults c3) 25) = Inr (Body fs3 (ItemsArray [])) \<longrightarrow>
        fst (searchChannels w3 query3 now3 c3) = Inr (ChannelArr [])
      \<and> map_of (videoCache (cache (snd (searchChannels w3 query3 now3 c3)))) (searchCacheKey query3) = None
      \<and> calls (snd (searchChannels w3 query3 now3 c3))
          = calls c3 @ [HealthProbe, ProviderSearch (apiKey c3) query3 (min (maxResults c3) 25)]
      \<and> fst (searchChannels w3 query3 later3 (snd (searchChannels w3 query3 now3 c3))) = Inr (ChannelArr [])
      \<and> calls (snd (searchChannels w3 query3 later3 (snd (searchChannels w3 query3 now3 c3))))
          = calls c3 @ [HealthProbe, ProviderSearch (apiKey c3) query3 (min (maxResults c3) 25),
                        HealthProbe, ProviderSearch (apiKey c3) query3 (min (maxResults c3) 25)])
 \<and> (reachesNative w4 query4 now4 c4
      \<and> api_search w4 (apiKey c4) query4 (min (maxResults c4) 25) = Inr (Body fs4 (ItemsArray [])) \<longrightarrow>
        searchChannels w4 query4 now4 c4
          = (Inr (ChannelArr []),
             (afterBridgeAttempt w4 query4 now4 c4)
               \<lparr>calls := calls (afterBridgeAttempt w4 query4 now4 c4)
                          @ [ProviderSearch (apiKey c4) query4 (min (maxResults c4) 25)]\<rparr>)
      \<and> cache (afterBridgeAttempt w4 query4 now4 c4)
          = snd (getVideos (searchCacheKey query4) now4 (cache c4))
      \<and> map_of (videoCache (cache (snd (searchChannels w4 query4 now4 c4)))) (searchCacheKey query4) = None
      \<and> fst (searchChannels w4 query4 later4 (snd (searchChannels w4 query4 now4 c4))) = Inr (ChannelArr [])
      \<and> calls (snd (searchChannels w4 query4 later4 (snd (searchChannels w4 query4 now4 c4))))
          = calls (snd (searchChannels w4 query4 now4 c4))
            @ newCalls c4 (snd (searchChannels w4 query4 now4 c4)))"
proof (intro conjI impI)
  assume a: "searchMisses query now c \<and> bridgeEnabled c \<and> bridge_health w = Some True
      \<and> bridge_search w (trim query) (min (maxResults c) 25) = Inr []"
  then have "searchMisses query now c" "bridgeEnabled c" "bridge_health w = Some True"
    "bridge_search w (trim query) (min (maxResults c) 25) = Inr []"
    by simp_all
  from bridge_zero_hits_facts[OF this, of later]
  show "fst (searchChannels w query now c) = Inr (ChannelArr [])"
    and "map_of (videoCache (cache (snd (searchChannels w query now c)))) (searchCacheKey query) = None"
    and "calls (snd (searchChannels w query now c))
          = calls c @ [HealthProbe, BridgeSearch (trim query) (min (maxResults c) 25)]"
    and "fst (searchChannels w query later (snd (searchChannels w query now c))) = Inr (ChannelArr [])"
    and "calls (snd (searchChannels w query later (snd (searchChannels w query now c))))
          = calls c @ [HealthProbe, BridgeSearch (trim query) (min (maxResults c) 25),
                       HealthProbe, BridgeSearch (trim query) (min (maxResults c) 25)]"
    by blast+
next
  assume a: "searchMisses query2 now2 c2 \<and> \<not> bridgeEnabled c2
      \<and> api_search w2 (apiKey c2) query2 (min (maxResults c2) 25) = Inr (Body fs (ItemsArray []))"
  then have "searchMisses query2 now2 c2" "\<not> bridgeEnabled c2"
    "api_search w2 (apiKey c2) query2 (min (maxResults c2) 25) = Inr (Body fs (ItemsArray []))"
    by simp_all
  from native_zero_hits_plain[OF this, of later2]
  show "fst (searchChannels w2 query2 now2 c2) = Inr (ChannelArr [])"
    and "map_of (videoCache (cache (snd (searchChannels w2 query2 now2 c2)))) (searchCacheKey query2) = None"
    and "calls (snd (searchChannels w2 query2 now2 c2))
          = calls c2 @ [ProviderSearch (apiKey c2) query2 (min (maxResults c2) 25)]"
    and "fst (searchChannels w2 query2 later2 (snd (searchChannels w2 query2 now2 c2))) = Inr (ChannelArr [])"
    and "calls (snd (searchChannels w2 query2 later2 (snd (searchChannels w2 query2 now2 c2))))
          = calls c2 @ [ProviderSearch (apiKey c2) query2 (min (maxResults c2) 25),
                        ProviderSearch (apiKey c2) query2 (min (maxResults c2) 25)]"
    by blast+
next
  assume a: "searchMisses query3 now3 c3 \<and> bridgeEnabled c3 \<and> bridge_health w3 \<noteq> Some True
      \<and> api_search w3 (apiKey c3) query3 (min (maxResults c3) 25) = Inr (Body fs3 (ItemsArray []))"
  then have "searchMisses query3 now3 c3" "bridgeEnabled c3" "bridge_health w3 \<noteq> Some True"
    "api_search w3 (apiKey c3) query3 (min (maxResults c3) 25) = Inr (Body fs3 (ItemsArray []))"
    by simp_all
  from native_zero_hits_unhealthy[OF this, of later3]
  show "fst (searchChannels w3 query3 now3 c3) = Inr (ChannelArr [])"
    and "map_of (videoCache (cache (snd (searchChannels w3 query3 now3 c3)))) (searchCacheKey query3) = None"
    and "calls (snd (searchChannels w3 query3 now3 c3))
          = calls c3 @ [HealthProbe, ProviderSearch (apiKey c3) query3 (min (maxResults c3) 25)]"
    and "fst (searchChannels w3 query3 later3 (snd (searchChannels w3 query3 now3 c3))) = Inr (ChannelArr [])"
    and "calls (snd (searchChannels w3 query3 later3 (snd (searchChannels w3 query3 now3 c3))))
          = calls c3 @ [HealthProbe, ProviderSearch (apiKey c3) query3 (min (maxResults c3) 25),
                        HealthProbe, ProviderSearch (apiKey c3) query3 (min (maxResults c3) 25)]"
    by blast+
next
  assume a: "reachesNative w4 query4 now4 c4
      \<and> api_search w4 (apiKey c4) query4 (min (maxResults c4) 25) = Inr (Body fs4 (ItemsArray []))"
  then have "reachesNative w4 query4 now4 c4"
    "api_search w4 (apiKey c4) query4 (min (maxResults c4) 25) = Inr (Body fs4 (ItemsArray []))"
    by simp_all
  from native_zero_hits_everywhere[OF this, of later4]
  show "searchChannels w4 query4 now4 c4
          = (Inr (ChannelArr []),
             (afterBridgeAttempt w4 query4 now4 c4)
               \<lparr>calls := calls (afterBridgeAttempt w4 query4 now4 c4)
                          @ [ProviderSearch (apiKey c4) query4 (min (maxResults c4) 25)]\<rparr>)"
    and "cache (afterBridgeAttempt w4 query4 now4 c4)
          = snd (getVideos (searchCacheKey query4) now4 (cache c4))"
    and "map_of (videoCache (cache (snd (searchChannels w4 query4 now4 c4)))) (searchCacheKey query4) = None"
    and "fst (searchChannels w4 query4 later4 (snd (searchChannels w4 query4 now4 c4))) = Inr (ChannelArr [])"
    and "calls (snd (searchChannels w4 query4 later4 (snd (searchChannels w4 query4 now4 c4))))
          = calls (snd (searchChannels w4 query4 now4 c4))
            @ newCalls c4 (snd (searchChannels w4 query4 now4 c4))"
    by blast+
qed

theorem C8_empty_result_not_cached_witness:
  "searchMisses ''cats'' 0 bridgeClient \<and> bridgeEnabled bridgeClient
 \<and> bridge_health (demoEnv (Some True) (Inr []) (Inl networkError)) = Some True
 \<and> bridge_search (demoEnv (Some True) (Inr []) (Inl networkError)) (trim ''cats'')
      (min (maxResults bridgeClient) 25) = Inr []
 \<and> searchChannels (demoEnv (Some True) (Inr []) (Inl networkError)) ''cats'' 0 bridgeClient
     = (Inr (ChannelArr []), bridgeClient\<lparr>calls := [HealthProbe, BridgeSearch ''cats'' 25]\<rparr>)
 \<and> calls (snd (searchChannels (demoEnv (Some True) (Inr []) (Inl networkError)) ''cats'' 60000
        (snd (searchChannels (demoEnv (Some True) (Inr []) (Inl networkError)) ''cats'' 0 bridgeClient))))
     = [HealthProbe, BridgeSearch ''cats'' 25, HealthProbe, BridgeSearch ''cats'' 25]
 \<and> searchMisses ''cats'' 0 (plainClient ''K1'') \<and> \<not> bridgeEnabled (plainClient ''K1'')
 \<and> api_search emptyItemsEnv (apiKey (plainClient ''K1'')) ''cats'' (min (maxResults (plainClient ''K1'')) 25)
     = Inr (Body [''kind'', ''etag''] (ItemsArray []))
 \<and> searchChannels emptyItemsEnv ''cats'' 0 (plainClient ''K1'')
     = (Inr (ChannelArr []), (plainClient ''K1'')\<lparr>calls := [ProviderSearch ''K1'' ''cats'' 25]\<rparr>)
 \<and> calls (snd (searchChannels emptyItemsEnv ''cats'' 60000
        (snd (searchChannels emptyItemsEnv ''cats'' 0 (plainClient ''K1'')))))
     = [ProviderSearch ''K1'' ''cats'' 25, ProviderSearch ''K1'' ''cats'' 25]
 \<and> bridge_health emptyItemsEnv \<noteq> Some True
 \<and> searchChannels emptyItemsEnv ''cats'' 0 bridgeClient
     = (Inr (ChannelArr []), bridgeClient\<lparr>calls := [HealthProbe, ProviderSearch ''K1'' ''cats'' 25]\<rparr>)
 \<and> calls (snd (searchChannels emptyItemsEnv ''cats'' 60000
        (snd (searchChannels emptyItemsEnv ''cats'' 0 bridgeClient))))
     = [HealthProbe, ProviderSearch ''K1'' ''cats'' 25, HealthProbe, ProviderSearch ''K1'' ''cats'' 25]
 \<and> reachesNative (demoEnv (Some True) (Inl ''Search request timed out'') (Inr emptySearchBody))
      ''cats'' 0 bridgeClient
 \<and> afterBridgeAttempt (demoEnv (Some True) (Inl ''Search request timed out'') (Inr emptySearchBody))
      ''cats'' 0 bridgeClient
     = bridgeClient\<lparr>calls := [HealthProbe, BridgeSearch ''cats'' 25]\<rparr>
 \<and> searchChannels (demoEnv (Some True) (Inl ''Search request timed out'') (Inr emptySearchBody))
      ''cats'' 0 bridgeClient
     = (Inr (ChannelArr []),
        bridgeClient\<lparr>calls := [HealthProbe, BridgeSearch ''cats'' 25, ProviderSearch ''K1'' ''cats'' 25]\<rparr>)
 \<and> calls (snd (searchChannels (demoEnv (Some True) (Inl ''Search request timed out'') (Inr emptySearchBody))
        ''cats'' 60000
        (snd (searchChannels (demoEnv (Some True) (Inl ''Search request timed out'') (Inr emptySearchBody))
           ''cats'' 0 bridgeClient))))
     = [HealthProbe, BridgeSearch ''cats'' 25, ProviderSearch ''K1'' ''cats'' 25,
        HealthProbe, BridgeSearch ''cats'' 25, ProviderSearch ''K1'' ''cats'' 25]"
  using C8_empty_result_not_cached[where query = "''cats''" and now = 0 and c = bridgeClient
      and w = "demoEnv (Some True) (Inr []) (Inl networkError)" and later = 60000
      and ?query2.0 = "''cats''" and ?now2.0 = 0 and ?c2.0 = "plainClient ''K1''"
      and ?w2.0 = emptyItemsEnv and fs = "[''kind'', ''etag'']" and ?later2.0 = 60000
      and ?query3.0 = "''cats''" and ?now3.0 = 0 and ?c3.0 = bridgeClient
      and ?w3.0 = emptyItemsEnv and ?fs3.0 = "[''kind'', ''etag'']" and ?later3.0 = 60000
      and ?query4.0 = "''cats''" and ?now4.0 = 0 and ?c4.0 = bridgeClient
      and ?w4.0 = "demoEnv (Some True) (Inl ''Search request timed out'') (Inr emptySearchBody)"
      and ?fs4.0 = "[''kind'', ''etag'']" and ?later4.0 = 60000]
  by (simp add: client_eval searchMisses_def bridgeEnabled_def demoEnv_def emptyItemsEnv_def
      bridgeClient_def plainClient_def reachesNative_def afterProbe_def afterBridgeAttempt_def
      emptySearchBody_def newCalls_def)

text \<open>
  The claim as stated fails: the search service answers the query "cats" with zero
  hits; one minute later, well inside the 24 hours a search result is cached for, the
  cache has no entry for the query and the same query probes and searches again.
\<close>

theorem C8_empty_result_not_cached_counterexample:
  "fst (searchChannels (demoEnv (Some True) (Inr []) (Inl networkError)) ''cats'' 0 bridgeClient)
     = Inr (ChannelArr [])
 \<and> calls (snd (searchChannels (demoEnv (Some True) (Inr []) (Inl networkError)) ''cats'' 0 bridgeClient))
     = [HealthProbe, BridgeSearch ''cats'' 25]
 \<and> fst (getVideos (searchCacheKey ''cats'') 60000
          (cache (snd (searchChannels (demoEnv (Some True) (Inr []) (Inl networkError)) ''cats'' 0
             bridgeClient)))) = None
 \<and> (60000 :: nat) < 0 + searchCacheDuration
 \<and> calls (snd (searchChannels (demoEnv (Some True) (Inr []) (Inl networkError)) ''cats'' 60000
        (snd (searchChannels (demoEnv (Some True) (Inr []) (Inl networkError)) ''cats'' 0 bridgeClient))))
     = [HealthProbe, BridgeSearch ''cats'' 25, HealthProbe, BridgeSearch ''cats'' 25]"
  by (simp add: client_eval demoEnv_def bridgeClient_def)




text \<open>
  C7 (as amended). In the search-service path the returned channels are the channels of
  the detail response, sorted in descending order of their relevance by a stable sort,
  so that ties keep the order of the detail response. The relevance of a channel is the
  maximum of 0 and, for each resolved video of that channel, the confidence of the
  first hit that carries the video's id. For the hits A 0.9, B 0.5, A 0.3 resolving to
  two channels, A's channel is ranked ahead of B's.
\<close>

theorem C7_bridge_ranking:
  "(length (trim query) \<noteq> 0
      \<and> bridge_search w (trim query) (min (maxResults c) 25) = Inr hits \<and> hits \<noteq> []
      \<and> fst (getVideoDetails w (extractVideoIds hits)
               (c\<lparr>calls := calls c @ [BridgeSearch (trim query) (min (maxResults c) 25)]\<rparr>)) = Inr videos
      \<and> uniqueInOrder (map v_channelId videos) \<noteq> []
      \<and> fst (getChannelsByIds w (uniqueInOrder (map v_channelId videos))
               (snd (getVideoDetails w (extractVideoIds hits)
                 (c\<lparr>calls := calls c @ [BridgeSearch (trim query) (min (maxResults c) 25)]\<rparr>)))) = Inr channels
    \<longrightarrow> fst (searchChannelsViaService w query cacheKey now c)
          = Inr (sortByRelevance (channelRelevanceMap hits videos) channels))
 \<and> (\<forall>i j. i \<le> j \<and> j < length channels' \<longrightarrow>
        relevanceOf m (sortByRelevance m channels' ! j) \<le> relevanceOf m (sortByRelevance m channels' ! i))
 \<and> (\<forall>r. filter (\<lambda>ch. relevanceOf m ch = r) (sortByRelevance m channels')
          = filter (\<lambda>ch. relevanceOf m ch = r) channels')
 \<and> set (sortByRelevance m channels') = set channels'
 \<and> length (sortByRelevance m channels') = length channels'
 \<and> relevanceOf (channelRelevanceMap hits' videos') ch
     = Max (set (0 # firstHitConfidences hits' videos' (c_id ch)))"
proof (intro conjI impI allI)
  assume "length (trim query) \<noteq> 0
      \<and> bridge_search w (trim query) (min (maxResults c) 25) = Inr hits \<and> hits \<noteq> []
      \<and> fst (getVideoDetails w (extractVideoIds hits)
               (c\<lparr>calls := calls c @ [BridgeSearch (trim query) (min (maxResults c) 25)]\<rparr>)) = Inr videos
      \<and> uniqueInOrder (map v_channelId videos) \<noteq> []
      \<and> fst (getChannelsByIds w (uniqueInOrder (map v_channelId videos))
               (snd (getVideoDetails w (extractVideoIds hits)
                 (c\<lparr>calls := calls c @ [BridgeSearch (trim query) (min (maxResults c) 25)]\<rparr>)))) = Inr channels"
  then show "fst (searchChannelsViaService w query cacheKey now c)
          = Inr (sortByRelevance (channelRelevanceMap hits videos) channels)"
    by (intro searchChannelsViaService_ranked) blast+
next
  fix i j assume "i \<le> j \<and> j < length channels'"
  then show "relevanceOf m (sortByRelevance m channels' ! j) \<le> relevanceOf m (sortByRelevance m channels' ! i)"
    by (intro sortByRelevance_descending) auto
next
  fix r show "filter (\<lambda>ch. relevanceOf m ch = r) (sortByRelevance m channels')
          = filter (\<lambda>ch. relevanceOf m ch = r) channels'"
    by (rule sortByRelevance_stable)
next
  show "set (sortByRelevance m channels') = set channels'"
    "length (sortByRelevance m channels') = length channels'"
    by (simp_all add: sortByRelevance_def)
  show "relevanceOf (channelRelevanceMap hits' videos') ch
     = Max (set (0 # firstHitConfidences hits' videos' (c_id ch)))"
    by (rule relevanceOf_max)
qed

theorem C7_bridge_ranking_witness:
  "length (trim ''cats'') \<noteq> 0
 \<and> bridge_search (demoEnv (Some True) (Inr [hit ''A'' 0.9, hit ''B'' 0.5, hit ''A'' 0.3]) (Inl networkError))
      (trim ''cats'') (min (maxResults bridgeClient) 25)
     = Inr [hit ''A'' 0.9, hit ''B'' 0.5, hit ''A'' 0.3]
 \<and> fst (getVideoDetails (demoEnv (Some True) (Inr [hit ''A'' 0.9, hit ''B'' 0.5, hit ''A'' 0.3]) (Inl networkError))
        (extractVideoIds [hit ''A'' 0.9, hit ''B'' 0.5, hit ''A'' 0.3])
        (bridgeClient\<lparr>calls := calls bridgeClient @ [BridgeSearch (trim ''cats'') (min (maxResults bridgeClient) 25)]\<rparr>))
     = Inr [mapVideoItem (videoItem ''A'' ''CA'' 1000), mapVideoItem (videoItem ''B'' ''CB'' 999)]
 \<and> uniqueInOrder (map v_channelId [mapVideoItem (videoItem ''A'' ''CA'' 1000), mapVideoItem (videoItem ''B'' ''CB'' 999)])
     = [''CA'', ''CB'']
 \<and> fst (searchChannelsViaService
          (demoEnv (Some True) (Inr [hit ''A'' 0.9, hit ''B'' 0.5, hit ''A'' 0.3]) (Inl networkError))
          ''cats'' ''search:cats'' 0 bridgeClient)
     = Inr [mapChannelItem (channelItem ''CA''), mapChannelItem (channelItem ''CB'')]
 \<and> sortByRelevance
        (channelRelevanceMap [hit ''A'' 0.9, hit ''B'' 0.5, hit ''A'' 0.3]
           [mapVideoItem (videoItem ''A'' ''CA'' 1000), mapVideoItem (videoItem ''B'' ''CB'' 999)])
        [mapChannelItem (channelItem ''CB''), mapChannelItem (channelItem ''CA'')]
     = [mapChannelItem (channelItem ''CA''), mapChannelItem (channelItem ''CB'')]
 \<and> relevanceOf
        (channelRelevanceMap [hit ''A'' 0.9, hit ''B'' 0.5, hit ''A'' 0.3]
           [mapVideoItem (videoItem ''A'' ''CA'' 1000), mapVideoItem (videoItem ''B'' ''CB'' 999)])
        (mapChannelItem (channelItem ''CA'')) = 0.9
 \<and> relevanceOf
        (channelRelevanceMap [hit ''A'' 0.9, hit ''B'' 0.5, hit ''A'' 0.3]
           [mapVideoItem (videoItem ''A'' ''CA'' 1000), mapVideoItem (videoItem ''B'' ''CB'' 999)])
        (mapChannelItem (channelItem ''CB'')) = 0.5
 \<and> (0 :: nat) \<le> 1
 \<and> (1 :: nat) < length [mapChannelItem (channelItem ''CB''), mapChannelItem (channelItem ''CA'')]"
  using C7_bridge_ranking[where query = "''cats''" and c = bridgeClient
      and w = "demoEnv (Some True) (Inr [hit ''A'' 0.9, hit ''B'' 0.5, hit ''A'' 0.3]) (Inl networkError)"
      and hits = "[hit ''A'' 0.9, hit ''B'' 0.5, hit ''A'' 0.3]"
      and videos = "[mapVideoItem (videoItem ''A'' ''CA'' 1000), mapVideoItem (videoItem ''B'' ''CB'' 999)]"
      and channels = "[mapChannelItem (channelItem ''CB''), mapChannelItem (channelItem ''CA'')]"
      and cacheKey = "''search:cats''" and now = 0
      and m = "channelRelevanceMap [hit ''A'' 0.9, hit ''B'' 0.5, hit ''A'' 0.3]
           [mapVideoItem (videoItem ''A'' ''CA'' 1000), mapVideoItem (videoItem ''B'' ''CB'' 999)]"
      and channels' = "[mapChannelItem (channelItem ''CB''), mapChannelItem (channelItem ''CA'')]"
      and hits' = "[hit ''A'' 0.9, hit ''B'' 0.5, hit ''A'' 0.3]"
      and videos' = "[mapVideoItem (videoItem ''A'' ''CA'' 1000), mapVideoItem (videoItem ''B'' ''CB'' 999)]"
      and ch = "mapChannelItem (channelItem ''CA'')"]
  by (simp add: client_eval demoEnv_def bridgeClient_def hit_def channelsBody_def channelItem_def
      videoItem_def thumbs_def)

text \<open>
  The claim as stated fails when a video id comes in several hits and a later hit has
  the higher confidence. For the hits A 0.3, B 0.5, A 0.9 the maximum confidence among
  the hits of A's channel is 0.9 and that of B's channel is 0.5, and B's channel is
  returned first.
\<close>

theorem C7_bridge_ranking_counterexample:
  "fst (searchChannels
          (demoEnv (Some True) (Inr [hit ''A'' 0.3, hit ''B'' 0.5, hit ''A'' 0.9]) (Inl networkError))
          ''cats'' 0 bridgeClient)
     = Inr (ChannelArr [mapChannelItem (channelItem ''CB''), mapChannelItem (channelItem ''CA'')])
 \<and> specMaxConfidence [hit ''A'' 0.3, hit ''B'' 0.5, hit ''A'' 0.9]
        [mapVideoItem (videoItem ''A'' ''CA'' 1000), mapVideoItem (videoItem ''B'' ''CB'' 999)] ''CA'' = 0.9
 \<and> specMaxConfidence [hit ''A'' 0.3, hit ''B'' 0.5, hit ''A'' 0.9]
        [mapVideoItem (videoItem ''A'' ''CA'' 1000), mapVideoItem (videoItem ''B'' ''CB'' 999)] ''CB'' = 0.5
 \<and> (0.5 :: real) < 0.9"
  by (simp add: client_eval specMaxConfidence_def demoEnv_def bridgeClient_def hit_def
      channelsBody_def channelItem_def videoItem_def thumbs_def)

end
